theory Spec2Isabelle
  imports Main "HOL-Library.Word"
begin

unbundle bit_operations_syntax

section \<open>The reader of libyaml: data model\<close>

text \<open>
  The development embeds \<^verbatim>\<open>src/reader.c\<close>. An \<^verbatim>\<open>unsigned char\<close> is an
  \<open>8 word\<close>, an \<^verbatim>\<open>unsigned int\<close> a \<open>32 word\<close>. The \<^verbatim>\<open>size_t\<close> fields (cursors,
  lengths, the stream offset, the count of unread characters) are natural numbers:
  the cursors are bounded by the buffer sizes, and the subtraction
  \<^verbatim>\<open>length - pointer\<close> is only taken where the code keeps \<open>pointer \<le> length\<close>.
  A buffer is the array itself (a list of octets of fixed size) with its cursors.
\<close>

type_synonym octet = "8 word"
type_synonym u32 = "32 word"

text \<open>
  Modelled from the spec: the encoding enumeration and the error kinds come from the
  public header, which is not part of the sources. \<open>YAML_ANY_ENCODING\<close> is the value 0
  that \<^verbatim>\<open>!parser->encoding\<close> tests for (the pre-detection sentinel of the spec).
\<close>

datatype yaml_encoding =
  YAML_ANY_ENCODING | YAML_UTF8_ENCODING | YAML_UTF16LE_ENCODING | YAML_UTF16BE_ENCODING

datatype yaml_error_type = YAML_NO_ERROR | YAML_READER_ERROR | YAML_DECODER_ERROR

text \<open>
  Modelled from the spec: the two buffer structures and the parser structure are
  declared in the private header, which is not part of the sources. The fields are the
  ones \<^verbatim>\<open>reader.c\<close> reads and writes; \<open>length_b\<close> is the field \<^verbatim>\<open>length\<close>.
\<close>

record yaml_buffer =
  buffer :: "octet list"
  pointer :: nat
  length_b :: nat
  capacity :: nat

record 'r yaml_parser =
  reader_data :: 'r
  is_eof :: bool
  raw_input :: yaml_buffer
  input :: yaml_buffer
  unread :: nat
  encoding :: yaml_encoding
  offset :: nat
  error :: yaml_error_type
  problem :: string
  problem_offset :: nat
  problem_value :: int

text \<open>
  The read handler \<^verbatim>\<open>parser->reader\<close> is a parameter of the model. Called on the
  handler's data and the number of free bytes, it fails (\<open>None\<close>, the C handler
  returns 0) or produces the bytes it has written together with its new data; the
  length of the list is the \<^verbatim>\<open>size_read\<close> of the C handler.
\<close>

type_synonym 'r yaml_read_handler = "'r \<Rightarrow> nat \<Rightarrow> (octet list \<times> 'r) option"

text \<open>
  Modelled from the spec: the macros \<^verbatim>\<open>READER_ERROR_INIT\<close> and
  \<^verbatim>\<open>DECODER_ERROR_INIT\<close> are defined in the private header. They record the error
  report (kind, message, offset, value) in the parser and evaluate to 0; the model
  returns the updated parser, and the caller pairs it with the result \<open>False\<close>.
\<close>

definition READER_ERROR_INIT :: "'r yaml_parser \<Rightarrow> string \<Rightarrow> nat \<Rightarrow> 'r yaml_parser" where
  "READER_ERROR_INIT p msg off =
     p\<lparr>error := YAML_READER_ERROR, problem := msg, problem_offset := off, problem_value := -1\<rparr>"

definition DECODER_ERROR_INIT ::
  "'r yaml_parser \<Rightarrow> string \<Rightarrow> nat \<Rightarrow> int \<Rightarrow> 'r yaml_parser" where
  "DECODER_ERROR_INIT p msg off v =
     p\<lparr>error := YAML_DECODER_ERROR, problem := msg, problem_offset := off, problem_value := v\<rparr>"

section \<open>Updating the raw buffer\<close>

text \<open>\<^verbatim>\<open>memmove(b + dst, b + src, n)\<close> inside one array.\<close>

definition memmove :: "octet list \<Rightarrow> nat \<Rightarrow> nat \<Rightarrow> nat \<Rightarrow> octet list" where
  "memmove b dst src n = take dst b @ take n (drop src b) @ drop (dst + n) b"

text \<open>The handler's bytes \<open>bs\<close>, stored from index \<open>at\<close> on.\<close>

definition store_bytes :: "octet list \<Rightarrow> nat \<Rightarrow> octet list \<Rightarrow> octet list" where
  "store_bytes b at bs = take at b @ bs @ drop (at + length bs) b"

definition yaml_parser_update_raw_buffer ::
  "'r yaml_read_handler \<Rightarrow> 'r yaml_parser \<Rightarrow> bool \<times> 'r yaml_parser" where
  "yaml_parser_update_raw_buffer rd p =
     (if pointer (raw_input p) = 0 \<and> length_b (raw_input p) = capacity (raw_input p)
      then (True, p)
      else if is_eof p then (True, p)
      else
        let r = raw_input p;
            r1 = (if 0 < pointer r \<and> pointer r < length_b r
                  then r\<lparr>buffer := memmove (buffer r) 0 (pointer r) (length_b r - pointer r)\<rparr>
                  else r);
            r2 = r1\<lparr>pointer := 0\<rparr>
        in case rd (reader_data p) (capacity r2 - length_b r2) of
             None \<Rightarrow> (False, READER_ERROR_INIT (p\<lparr>raw_input := r2\<rparr>) ''Input error'' (offset p))
           | Some (bs, d) \<Rightarrow>
               let r3 = r2\<lparr>buffer := store_bytes (buffer r2) (length_b r2) bs,
                           length_b := length_b r2 + length bs\<rparr>;
                   p3 = p\<lparr>reader_data := d, raw_input := r3\<rparr>
               in (True, if bs = [] then p3\<lparr>is_eof := True\<rparr> else p3))"

section \<open>Determining the encoding\<close>

definition BOM_UTF8 :: "octet list" where "BOM_UTF8 = [0xEF, 0xBB, 0xBF]"
definition BOM_UTF16LE :: "octet list" where "BOM_UTF16LE = [0xFF, 0xFE]"
definition BOM_UTF16BE :: "octet list" where "BOM_UTF16BE = [0xFE, 0xFF]"

text \<open>
  The loop at the head of \<^verbatim>\<open>yaml_parser_determine_encoding\<close>. It does not return
  when the raw buffer is full with fewer than three bytes, so it is a partial function:
  \<open>None\<close> is a call that never returns.
\<close>

partial_function (option) fill_raw_buffer ::
  "'r yaml_read_handler \<Rightarrow> 'r yaml_parser \<Rightarrow> (bool \<times> 'r yaml_parser) option" where
  "fill_raw_buffer rd p =
     (if \<not> is_eof p \<and> length_b (raw_input p) < 3
      then (case yaml_parser_update_raw_buffer rd p of
              (ok, p1) \<Rightarrow> if \<not> ok then Some (False, p1) else fill_raw_buffer rd p1)
      else Some (True, p))"

declare fill_raw_buffer.simps [code]

text \<open>The comparison \<^verbatim>\<open>length >= n && !memcmp(buffer, bom, n)\<close>.\<close>

definition has_bom :: "yaml_buffer \<Rightarrow> octet list \<Rightarrow> bool" where
  "has_bom r bom = (length_b r \<ge> length bom \<and> take (length bom) (buffer r) = bom)"

definition select_encoding :: "'r yaml_parser \<Rightarrow> 'r yaml_parser" where
  "select_encoding p =
     (if has_bom (raw_input p) BOM_UTF16LE
      then p\<lparr>encoding := YAML_UTF16LE_ENCODING,
              raw_input := (raw_input p)\<lparr>pointer := 2\<rparr>, offset := 2\<rparr>
      else if has_bom (raw_input p) BOM_UTF16BE
      then p\<lparr>encoding := YAML_UTF16BE_ENCODING,
              raw_input := (raw_input p)\<lparr>pointer := 2\<rparr>, offset := 2\<rparr>
      else if has_bom (raw_input p) BOM_UTF8
      then p\<lparr>encoding := YAML_UTF8_ENCODING,
              raw_input := (raw_input p)\<lparr>pointer := 3\<rparr>, offset := 3\<rparr>
      else p\<lparr>encoding := YAML_UTF8_ENCODING\<rparr>)"

definition yaml_parser_determine_encoding ::
  "'r yaml_read_handler \<Rightarrow> 'r yaml_parser \<Rightarrow> (bool \<times> 'r yaml_parser) option" where
  "yaml_parser_determine_encoding rd p =
     (case fill_raw_buffer rd p of
        None \<Rightarrow> None
      | Some (ok, p1) \<Rightarrow> if \<not> ok then Some (False, p1) else Some (True, select_encoding p1))"

section \<open>Decoding one character\<close>

text \<open>
  The three ways in which the body of the decoding loop leaves the \<^verbatim>\<open>switch\<close>: with
  a value and a width, with \<^verbatim>\<open>is_incomplete\<close> set, or by returning the result of
  \<^verbatim>\<open>DECODER_ERROR_INIT\<close> (message, offset, value).

  The pointer \<^verbatim>\<open>raw_buffer\<close> of the code is the array from the raw pointer on. The loop
  enters its body with the raw pointer different from the length; as long as the
  pointer is below the length and the length within the array, every octet that the
  body reads (\<^verbatim>\<open>raw_buffer[k]\<close> with \<open>k\<close> below the width, itself checked against the
  number of unread bytes) is inside the array.
\<close>

datatype decode_outcome = Decoded u32 nat | Incomplete | Invalid string nat int

definition raw_buffer :: "'r yaml_parser \<Rightarrow> octet list" where
  "raw_buffer p = drop (pointer (raw_input p)) (buffer (raw_input p))"

definition raw_unread :: "'r yaml_parser \<Rightarrow> nat" where
  "raw_unread p = length_b (raw_input p) - pointer (raw_input p)"

definition utf8_width :: "octet \<Rightarrow> nat" where
  "utf8_width octet =
     (if octet AND 0x80 = 0x00 then 1
      else if octet AND 0xE0 = 0xC0 then 2
      else if octet AND 0xF0 = 0xE0 then 3
      else if octet AND 0xF8 = 0xF0 then 4 else 0)"

definition utf8_leading :: "octet \<Rightarrow> u32" where
  "utf8_leading octet =
     (if octet AND 0x80 = 0x00 then ucast (octet AND 0x7F)
      else if octet AND 0xE0 = 0xC0 then ucast (octet AND 0x1F)
      else if octet AND 0xF0 = 0xE0 then ucast (octet AND 0x0F)
      else if octet AND 0xF8 = 0xF0 then ucast (octet AND 0x07) else 0)"

text \<open>
  The loop over the trailing octets, from index \<open>k\<close>: the index and the octet of the
  first invalid one, or the accumulated value.
\<close>

function utf8_trailing :: "octet list \<Rightarrow> nat \<Rightarrow> nat \<Rightarrow> u32 \<Rightarrow> (nat \<times> octet) + u32" where
  "utf8_trailing raw width k v =
     (if k < width
      then (let octet = raw ! k
            in if octet AND 0xC0 \<noteq> 0x80 then Inl (k, octet)
               else utf8_trailing raw width (k + 1) (push_bit 6 v + ucast (octet AND 0x3F)))
      else Inr v)"
  by pat_completeness auto
termination
  by (relation "measure (\<lambda>(raw, width, k, v). width - k)") auto

declare utf8_trailing.simps [simp del]

definition decode_utf8 :: "'r yaml_parser \<Rightarrow> decode_outcome" where
  "decode_utf8 p =
     (let octet = raw_buffer p ! 0;
          width = utf8_width octet
      in if width = 0
         then Invalid ''Invalid leading UTF-8 octet'' (offset p) (uint octet)
         else if width > raw_unread p
         then (if is_eof p
               then Invalid ''Incomplete UTF-8 octet sequence'' (offset p) (- 1)
               else Incomplete)
         else (case utf8_trailing (raw_buffer p) width 1 (utf8_leading octet) of
                 Inl (k, bad) \<Rightarrow>
                   Invalid ''Invalid trailing UTF-8 octet'' (offset p + k) (uint bad)
               | Inr v \<Rightarrow>
                   if \<not> (width = 1 \<or> (width = 2 \<and> v \<ge> 0x80) \<or> (width = 3 \<and> v \<ge> 0x800)
                          \<or> (width = 4 \<and> v \<ge> 0x10000))
                   then Invalid ''Invalid length of a UTF-8 sequence'' (offset p) (- 1)
                   else if (v \<ge> 0xD800 \<and> v \<le> 0xDFFF) \<or> v > 0x10FFFF
                   then Invalid ''Invalid Unicode character'' (offset p) (uint v)
                   else Decoded v width))"

text \<open>The 16-bit unit whose bytes are at the indices \<open>lo\<close> and \<open>hi\<close>.\<close>

definition utf16_unit :: "octet list \<Rightarrow> nat \<Rightarrow> nat \<Rightarrow> u32" where
  "utf16_unit raw lo hi = ucast (raw ! lo) + push_bit 8 (ucast (raw ! hi))"

definition decode_utf16 :: "'r yaml_parser \<Rightarrow> decode_outcome" where
  "decode_utf16 p =
     (let low = (if encoding p = YAML_UTF16LE_ENCODING then 0 else 1);
          high = (if encoding p = YAML_UTF16LE_ENCODING then 1 else 0)
      in if raw_unread p < 2
         then (if is_eof p
               then Invalid ''Incomplete UTF-16 character'' (offset p) (- 1)
               else Incomplete)
         else
           let v = utf16_unit (raw_buffer p) low high
           in if v AND 0xFC00 = 0xDC00
              then Invalid ''Unexpected low surrogate area'' (offset p) (uint v)
              else if v AND 0xFC00 = 0xD800
              then (if raw_unread p < 4
                    then (if is_eof p
                          then Invalid ''Incomplete UTF-16 surrogate pair'' (offset p) (- 1)
                          else Incomplete)
                    else
                      let v2 = utf16_unit (raw_buffer p) (low + 2) (high + 2)
                      in if v2 AND 0xFC00 \<noteq> 0xDC00
                         then Invalid ''Expected low surrogate area'' (offset p + 2) (uint v2)
                         else Decoded (0x10000 + push_bit 10 (v AND 0x3FF) + (v2 AND 0x3FF)) 4)
              else Decoded v 2)"

text \<open>
  The \<^verbatim>\<open>switch\<close> on the encoding. Its \<^verbatim>\<open>default\<close> branch does nothing, which
  leaves the initial \<^verbatim>\<open>value = 0\<close> and \<^verbatim>\<open>width = 0\<close>.
\<close>

definition decode_char :: "'r yaml_parser \<Rightarrow> decode_outcome" where
  "decode_char p =
     (case encoding p of
        YAML_UTF8_ENCODING \<Rightarrow> decode_utf8 p
      | YAML_UTF16LE_ENCODING \<Rightarrow> decode_utf16 p
      | YAML_UTF16BE_ENCODING \<Rightarrow> decode_utf16 p
      | YAML_ANY_ENCODING \<Rightarrow> Decoded 0 0)"

text \<open>The check of the allowed range, as the condition of the code is written.\<close>

definition allowed :: "u32 \<Rightarrow> bool" where
  "allowed v =
     (v = 0x09 \<or> v = 0x0A \<or> v = 0x0D \<or> (v \<ge> 0x20 \<and> v \<le> 0x7E)
      \<or> v = 0x85 \<or> (v \<ge> 0xA0 \<and> v \<le> 0xD7FF)
      \<or> (v \<ge> 0xE000 \<and> v \<le> 0xFFFD)
      \<or> (v \<ge> 0x10000 \<and> v \<le> 0x10FFFF))"

text \<open>\<^verbatim>\<open>parser->input.buffer[parser->input.length++] = c\<close>, the octet cut to 8 bits.\<close>

definition put_octet :: "u32 \<Rightarrow> yaml_buffer \<Rightarrow> yaml_buffer" where
  "put_octet c b = b\<lparr>buffer := (buffer b)[length_b b := ucast c], length_b := length_b b + 1\<rparr>"

definition put_char :: "u32 \<Rightarrow> yaml_buffer \<Rightarrow> yaml_buffer" where
  "put_char v b =
     (if v \<le> 0x7F then put_octet v b
      else if v \<le> 0x7FF
      then put_octet (0x80 + (v AND 0x3F)) (put_octet (0xC0 + drop_bit 6 v) b)
      else if v \<le> 0xFFFF
      then put_octet (0x80 + (v AND 0x3F))
             (put_octet (0x80 + (drop_bit 6 v AND 0x3F)) (put_octet (0xE0 + drop_bit 12 v) b))
      else put_octet (0x80 + (v AND 0x3F))
             (put_octet (0x80 + (drop_bit 6 v AND 0x3F))
               (put_octet (0x80 + (drop_bit 12 v AND 0x3F)) (put_octet (0xF0 + drop_bit 18 v) b))))"

text \<open>
  The body of the inner loop. \<open>Next\<close>: the character went to the buffer and the loop
  goes on; \<open>Break\<close>: the \<^verbatim>\<open>break\<close> on an incomplete character; \<open>Return0\<close>: the
  function returns 0.
\<close>

datatype flow = Next | Break | Return0

definition decode_step :: "'r yaml_parser \<Rightarrow> flow \<times> 'r yaml_parser" where
  "decode_step p =
     (case decode_char p of
        Invalid msg off v \<Rightarrow> (Return0, DECODER_ERROR_INIT p msg off v)
      | Incomplete \<Rightarrow> (Break, p)
      | Decoded v width \<Rightarrow>
          if \<not> allowed v
          then (Return0,
                DECODER_ERROR_INIT p ''Control characters are not allowed'' (offset p) (uint v))
          else (Next,
                p\<lparr>raw_input := (raw_input p)\<lparr>pointer := pointer (raw_input p) + width\<rparr>,
                  offset := offset p + width,
                  input := put_char v (input p),
                  unread := unread p + 1\<rparr>))"

section \<open>The decoding loop\<close>

lemma utf8_width_le: "utf8_width c \<le> 4"
  by (simp add: utf8_width_def)

lemma decode_utf8_Decoded:
  "decode_utf8 p = Decoded v w \<Longrightarrow> 1 \<le> w \<and> w \<le> 4 \<and> w \<le> raw_unread p"
  using utf8_width_le [of "raw_buffer p ! 0"]
  by (auto simp: decode_utf8_def Let_def split: if_splits sum.splits prod.splits)

lemma decode_utf16_Decoded:
  "decode_utf16 p = Decoded v w \<Longrightarrow> (w = 2 \<or> w = 4) \<and> w \<le> raw_unread p"
  by (auto simp: decode_utf16_def Let_def split: if_splits)

lemma allowed_0: "\<not> allowed 0"
  by (simp add: allowed_def)

lemma decode_char_Decoded:
  "decode_char p = Decoded v w \<Longrightarrow> allowed v \<Longrightarrow> 1 \<le> w \<and> w \<le> 4 \<and> w \<le> raw_unread p"
  by (auto simp: decode_char_def allowed_0 split: yaml_encoding.splits
      dest: decode_utf8_Decoded decode_utf16_Decoded)

lemma decode_step_Next:
  "decode_step p = (Next, p') \<Longrightarrow>
   \<exists>v w. decode_char p = Decoded v w \<and> allowed v \<and> 1 \<le> w \<and> w \<le> 4 \<and> w \<le> raw_unread p \<and>
     p' = p\<lparr>raw_input := (raw_input p)\<lparr>pointer := pointer (raw_input p) + w\<rparr>,
            offset := offset p + w, input := put_char v (input p), unread := unread p + 1\<rparr>"
  by (auto simp: decode_step_def split: decode_outcome.splits if_splits
      dest: decode_char_Decoded)

text \<open>
  The inner loop of \<^verbatim>\<open>yaml_parser_update_buffer\<close>, which decodes the raw buffer.
  The result is \<open>False\<close> where the function returns 0 from inside the loop, and
  \<open>True\<close> where the loop is left, at its condition or by the \<^verbatim>\<open>break\<close>.
\<close>

function decode_all :: "'r yaml_parser \<Rightarrow> bool \<times> 'r yaml_parser" where
  "decode_all p =
     (if pointer (raw_input p) \<noteq> length_b (raw_input p)
      then (case decode_step p of
              (Next, p1) \<Rightarrow> decode_all p1
            | (Break, p1) \<Rightarrow> (True, p1)
            | (Return0, p1) \<Rightarrow> (False, p1))
      else (True, p))"
  by pat_completeness auto
termination
proof (relation "measure raw_unread")
  show "wf (measure raw_unread)" by simp
next
  fix p :: "'r yaml_parser" and x and p1 :: "'r yaml_parser"
  assume "pointer (raw_input p) \<noteq> length_b (raw_input p)"
    and "(x, p1) = decode_step p" and "x = Next"
  then have "decode_step p = (Next, p1)" by simp
  from decode_step_Next [OF this] show "(p1, p) \<in> measure raw_unread"
    by (auto simp: raw_unread_def)
qed

declare decode_all.simps [simp del]

section \<open>Ensuring that the buffer holds enough characters\<close>

text \<open>Moving the unread characters to the beginning of the buffer.\<close>

definition compact_input :: "yaml_buffer \<Rightarrow> yaml_buffer" where
  "compact_input b =
     (if 0 < pointer b \<and> pointer b < length_b b
      then b\<lparr>buffer := memmove (buffer b) 0 (pointer b) (length_b b - pointer b),
              length_b := length_b b - pointer b, pointer := 0\<rparr>
      else if pointer b = length_b b
      then b\<lparr>pointer := 0, length_b := 0\<rparr>
      else b)"

text \<open>On EOF, the NUL character goes to the buffer.\<close>

definition put_nul :: "'r yaml_parser \<Rightarrow> 'r yaml_parser" where
  "put_nul p = p\<lparr>input := put_octet 0 (input p), unread := unread p + 1\<rparr>"

text \<open>
  The outer loop, which fills the buffer until it has \<open>n\<close> characters. It does not
  return when the raw buffer is full and starts with a character that is incomplete.
\<close>

partial_function (option) fill_buffer ::
  "'r yaml_read_handler \<Rightarrow> nat \<Rightarrow> 'r yaml_parser \<Rightarrow> (bool \<times> 'r yaml_parser) option" where
  "fill_buffer rd n p =
     (if unread p < n
      then (case yaml_parser_update_raw_buffer rd p of
              (ok, p1) \<Rightarrow>
                if \<not> ok then Some (False, p1)
                else (case decode_all p1 of
                        (ok2, p2) \<Rightarrow>
                          if \<not> ok2 then Some (False, p2)
                          else if is_eof p2 then Some (True, put_nul p2)
                          else fill_buffer rd n p2))
      else Some (True, p))"

declare fill_buffer.simps [code]

definition yaml_parser_update_buffer ::
  "'r yaml_read_handler \<Rightarrow> 'r yaml_parser \<Rightarrow> nat \<Rightarrow> (bool \<times> 'r yaml_parser) option" where
  "yaml_parser_update_buffer rd p n =
     (if is_eof p \<and> pointer (raw_input p) = length_b (raw_input p) then Some (True, p)
      else if unread p \<ge> n then Some (True, p)
      else
        case (if encoding p = YAML_ANY_ENCODING
              then yaml_parser_determine_encoding rd p else Some (True, p)) of
          None \<Rightarrow> None
        | Some (ok, p1) \<Rightarrow>
            if \<not> ok then Some (False, p1)
            else fill_buffer rd n (p1\<lparr>input := compact_input (input p1)\<rparr>))"

section \<open>Two read handlers\<close>

text \<open>
  A handler that reads from a string in memory, as many bytes as there is room for,
  and one that hands over a single byte for each call.
\<close>

definition string_reader :: "octet list yaml_read_handler" where
  "string_reader d n = Some (take n d, drop n d)"

definition byte_reader :: "octet list yaml_read_handler" where
  "byte_reader d n = Some (take (min n 1) d, drop (min n 1) d)"

text \<open>A parser as it is before the first call: empty buffers, nothing read.\<close>

definition new_parser :: "nat \<Rightarrow> nat \<Rightarrow> 'r \<Rightarrow> 'r yaml_parser" where
  "new_parser raw_size text_size d =
     \<lparr>reader_data = d, is_eof = False,
      raw_input = \<lparr>buffer = replicate raw_size 0, pointer = 0, length_b = 0, capacity = raw_size\<rparr>,
      input = \<lparr>buffer = replicate text_size 0, pointer = 0, length_b = 0, capacity = text_size\<rparr>,
      unread = 0, encoding = YAML_ANY_ENCODING, offset = 0,
      error = YAML_NO_ERROR, problem = [], problem_offset = 0, problem_value = 0\<rparr>"

section \<open>Notions used in the statements\<close>

text \<open>The octets of a buffer up to its length, and its unread part.\<close>

definition contents :: "yaml_buffer \<Rightarrow> octet list" where
  "contents b = take (length_b b) (buffer b)"

definition unread_text :: "yaml_buffer \<Rightarrow> octet list" where
  "unread_text b = drop (pointer b) (contents b)"

text \<open>
  The octets of a value in UTF-8, by arithmetic on the value: one octet for a value up
  to \<open>0x7F\<close>, two up to \<open>0x7FF\<close>, three up to \<open>0xFFFF\<close> and four above; the first one
  carries the length marker and the leading bits of the value, each of the others the
  marker \<open>0x80\<close> and the next six bits.
\<close>

definition utf8_octets :: "u32 \<Rightarrow> octet list" where
  "utf8_octets v =
     map of_nat
       (let n = unat v
        in if n \<le> 0x7F then [n]
           else if n \<le> 0x7FF then [0xC0 + n div 64, 0x80 + n mod 64]
           else if n \<le> 0xFFFF
           then [0xE0 + n div 4096, 0x80 + n div 64 mod 64, 0x80 + n mod 64]
           else [0xF0 + n div 262144, 0x80 + n div 4096 mod 64, 0x80 + n div 64 mod 64,
                 0x80 + n mod 64])"

text \<open>The 16-bit unit at the pointer of the raw buffer, and the one after it.\<close>

definition utf16_first :: "'r yaml_parser \<Rightarrow> u32" where
  "utf16_first p =
     (let low = (if encoding p = YAML_UTF16LE_ENCODING then 0 else 1);
          high = (if encoding p = YAML_UTF16LE_ENCODING then 1 else 0)
      in utf16_unit (raw_buffer p) low high)"

definition utf16_second :: "'r yaml_parser \<Rightarrow> u32" where
  "utf16_second p =
     (let low = (if encoding p = YAML_UTF16LE_ENCODING then 0 else 1);
          high = (if encoding p = YAML_UTF16LE_ENCODING then 1 else 0)
      in utf16_unit (raw_buffer p) (low + 2) (high + 2))"

text \<open>
  The value of a UTF-8 sequence of \<open>width\<close> octets: the low bits of the leading octet,
  followed by the low six bits of each of the other octets.
\<close>

definition utf8_value :: "octet list \<Rightarrow> nat \<Rightarrow> u32" where
  "utf8_value raw width =
     foldl (\<lambda>v c. push_bit 6 v + ucast (c AND 0x3F)) (utf8_leading (raw ! 0))
       (map (\<lambda>k. raw ! k) [1..<width])"

text \<open>What one pass of the inner loop does to the buffer of decoded characters.\<close>

definition appended :: "'r yaml_parser \<Rightarrow> 'r yaml_parser \<Rightarrow> bool" where
  "appended p p' =
     (is_eof p' = is_eof p \<and> pointer (input p') = pointer (input p) \<and>
      length (buffer (input p')) = length (buffer (input p)) \<and>
      length_b (input p) \<le> length_b (input p') \<and>
      (length_b (input p') \<le> length (buffer (input p')) \<longrightarrow>
         (\<exists>bs. 0 \<notin> set bs \<and> contents (input p') = contents (input p) @ bs)))"

text \<open>What the outer loop does to the buffer of decoded characters, when it returns 1.\<close>

definition filled :: "'r yaml_parser \<Rightarrow> 'r yaml_parser \<Rightarrow> bool" where
  "filled p p' =
     (pointer (input p') = pointer (input p) \<and>
      length (buffer (input p')) = length (buffer (input p)) \<and>
      length_b (input p) \<le> length_b (input p') \<and>
      (is_eof p' \<longrightarrow> pointer (raw_input p') = length_b (raw_input p')) \<and>
      (length_b (input p') \<le> length (buffer (input p')) \<longrightarrow>
         (\<exists>bs. 0 \<notin> set bs \<and>
            contents (input p') = contents (input p) @ bs @ (if is_eof p' then [0] else []))))"

text \<open>
  A parser in the middle of a stream: the encoding is known, the raw buffer holds the
  bytes \<open>bs\<close> and is full, the first \<open>ptr\<close> of them are decoded already, and there is
  room for eight octets in the buffer.
\<close>

definition decoding_parser :: "yaml_encoding \<Rightarrow> bool \<Rightarrow> octet list \<Rightarrow> nat \<Rightarrow> unit yaml_parser" where
  "decoding_parser enc eof bs ptr =
     \<lparr>reader_data = (), is_eof = eof,
      raw_input = \<lparr>buffer = bs, pointer = ptr, length_b = length bs, capacity = length bs\<rparr>,
      input = \<lparr>buffer = [0, 0, 0, 0, 0, 0, 0, 0], pointer = 0, length_b = 0, capacity = 8\<rparr>,
      unread = 0, encoding = enc, offset = ptr,
      error = YAML_NO_ERROR, problem = [], problem_offset = 0, problem_value = 0\<rparr>"

lemmas decode_defs =
  decode_step_def decode_char_def decode_utf8_def decode_utf16_def raw_buffer_def
  raw_unread_def utf8_width_def utf8_leading_def utf16_unit_def allowed_def

lemmas eval_defs =
  decode_defs decoding_parser_def utf16_first_def utf16_second_def utf8_value_def
  DECODER_ERROR_INIT_def

section \<open>A fatal decoder error leaves the position where it was\<close>

text \<open>
  C10. Whenever the attempt to decode one character returns a decoder error, the raw
  buffer (with its pointer) and the stream offset are as they were at the start of the
  attempt, and nothing went to the buffer of decoded characters: its contents, its
  length and the count of unread characters are unchanged.
\<close>

theorem decode_error_keeps_position:
  "decode_step p = (Return0, p') \<Longrightarrow>
   error p' = YAML_DECODER_ERROR \<and> raw_input p' = raw_input p \<and> offset p' = offset p \<and>
   input p' = input p \<and> unread p' = unread p"
  by (auto simp: decode_step_def DECODER_ERROR_INIT_def split: decode_outcome.splits if_splits)

theorem decode_error_keeps_position_witness:
  "decode_step (decoding_parser YAML_UTF8_ENCODING False [0x41, 0xFF] 1) =
     (Return0, DECODER_ERROR_INIT (decoding_parser YAML_UTF8_ENCODING False [0x41, 0xFF] 1)
                 ''Invalid leading UTF-8 octet'' 1 255) \<and>
   pointer (raw_input (DECODER_ERROR_INIT (decoding_parser YAML_UTF8_ENCODING False [0x41, 0xFF] 1)
                 ''Invalid leading UTF-8 octet'' 1 255)) = 1 \<and>
   offset (DECODER_ERROR_INIT (decoding_parser YAML_UTF8_ENCODING False [0x41, 0xFF] 1)
                 ''Invalid leading UTF-8 octet'' 1 255) = 1"
proof -
  let ?p = "decoding_parser YAML_UTF8_ENCODING False [0x41, 0xFF] 1"
  have h: "decode_step ?p = (Return0, DECODER_ERROR_INIT ?p ''Invalid leading UTF-8 octet'' 1 255)"
    by (simp add: decode_defs decoding_parser_def)
  from decode_error_keeps_position [OF h] h show ?thesis
    by (simp add: decoding_parser_def)
qed

section \<open>The check of the allowed range\<close>

text \<open>
  C6. For a character that the decoder of any of the encodings has produced, the
  decoding step accepts it exactly when its value is in
  \<open>{0x09, 0x0A, 0x0D} \<union> [0x20,0x7E] \<union> {0x85} \<union> [0xA0,0xD7FF] \<union> [0xE000,0xFFFD] \<union>
  [0x10000,0x10FFFF]\<close>; for every other value, the NUL of the stream among them, it
  returns the decoder error "Control characters are not allowed" with the offset and
  the value.
\<close>

theorem admissibility_gate:
  "decode_char p = Decoded v w \<Longrightarrow>
   (fst (decode_step p) = Next) =
     (v \<in> {0x09, 0x0A, 0x0D} \<union> {0x20..0x7E} \<union> {0x85} \<union> {0xA0..0xD7FF}
          \<union> {0xE000..0xFFFD} \<union> {0x10000..0x10FFFF}) \<and>
   (v \<notin> {0x09, 0x0A, 0x0D} \<union> {0x20..0x7E} \<union> {0x85} \<union> {0xA0..0xD7FF}
          \<union> {0xE000..0xFFFD} \<union> {0x10000..0x10FFFF} \<longrightarrow>
    decode_step p =
      (Return0, DECODER_ERROR_INIT p ''Control characters are not allowed'' (offset p) (uint v)))"
  by (auto simp: decode_step_def allowed_def)

theorem admissibility_gate_witness:
  "decode_char (decoding_parser YAML_UTF8_ENCODING False [0x00] 0) = Decoded 0 1 \<and>
   decode_step (decoding_parser YAML_UTF8_ENCODING False [0x00] 0) =
     (Return0, DECODER_ERROR_INIT (decoding_parser YAML_UTF8_ENCODING False [0x00] 0)
        ''Control characters are not allowed'' 0 0) \<and>
   decode_char (decoding_parser YAML_UTF16BE_ENCODING False [0x00, 0x85] 0) = Decoded 0x85 2 \<and>
   fst (decode_step (decoding_parser YAML_UTF16BE_ENCODING False [0x00, 0x85] 0)) = Next"
proof -
  have h: "decode_char (decoding_parser YAML_UTF8_ENCODING False [0x00] 0) = Decoded 0 1"
    by (simp add: decode_defs decoding_parser_def utf8_trailing.simps)
  have k: "decode_char (decoding_parser YAML_UTF16BE_ENCODING False [0x00, 0x85] 0) = Decoded 0x85 2"
    by (simp add: decode_defs decoding_parser_def)
  from admissibility_gate [OF h] admissibility_gate [OF k] h k show ?thesis
    by (simp add: decoding_parser_def)
qed

section \<open>A decoded character goes to the buffer\<close>

text \<open>The octets that the code computes with shifts and masks are those of the value.\<close>

lemma unat_lead:
  fixes v b :: "32 word"
  assumes "unat b < 256" and that: "6 \<le> n"
  shows "unat (b + drop_bit n v) = unat b + unat v div 2 ^ n"
proof -
  have "unat v < 2 ^ LENGTH(32)" by (rule unsigned_less)
  then have v: "unat v < 2 ^ 32" by simp
  have d: "unat (drop_bit n v) = unat v div 2 ^ n"
    by (simp only: unat_drop_bit_eq) (simp add: drop_bit_eq_div)
  have "(2::nat) ^ 6 \<le> 2 ^ n"
    using that by (rule power_increasing) simp
  then have "unat v div 2 ^ n \<le> unat v div 2 ^ 6"
    by (intro div_le_mono2) simp_all
  also from v have "\<dots> < 2 ^ 26" by simp
  finally have "unat b + unat (drop_bit n v) < 2 ^ LENGTH(32)"
    using assms by (simp add: d)
  then have "unat (b + drop_bit n v) = unat b + unat (drop_bit n v)"
    by (simp only: unat_add_lem)
  with d show ?thesis by simp
qed

lemma unat_and_3F_eq:
  fixes x :: "32 word"
  shows "unat (x AND 0x3F) = unat x mod 64"
proof -
  have "(0x3F :: 32 word) = mask 6" by (simp add: mask_eq_exp_minus_1)
  then have "x AND 0x3F = take_bit 6 x" by (simp only: take_bit_eq_mask)
  then have "unat (x AND 0x3F) = take_bit 6 (unat x)"
    by (simp only: unsigned_take_bit_eq)
  then show ?thesis by (simp add: take_bit_eq_mod)
qed

lemma unat_trail:
  fixes x :: "32 word"
  shows "unat (0x80 + (x AND 0x3F)) = 128 + unat x mod 64"
proof -
  have "unat (0x80 :: 32 word) + unat (x AND 0x3F) < 2 ^ LENGTH(32)"
    by (simp add: unat_and_3F_eq)
  then have "unat (0x80 + (x AND 0x3F)) = unat (0x80 :: 32 word) + unat (x AND 0x3F)"
    by (simp only: unat_add_lem)
  then show ?thesis by (simp add: unat_and_3F_eq)
qed

lemma ucast_of_nat: "(ucast (w :: 32 word) :: 8 word) = of_nat (unat w)"
  by simp

lemma unat_drop_bit_div:
  fixes v :: "32 word"
  shows "unat (drop_bit n v) = unat v div 2 ^ n"
  by (simp only: unat_drop_bit_eq) (simp add: drop_bit_eq_div)

lemma octet_lead:
  fixes v :: "32 word"
  shows "(ucast (0xC0 + drop_bit 6 v) :: 8 word) = of_nat (0xC0 + unat v div 64)"
    and "(ucast (0xE0 + drop_bit 12 v) :: 8 word) = of_nat (0xE0 + unat v div 4096)"
    and "(ucast (0xF0 + drop_bit 18 v) :: 8 word) = of_nat (0xF0 + unat v div 262144)"
proof -
  have "unat (0xC0 + drop_bit 6 v) = 0xC0 + unat v div 64"
    using unat_lead [of "0xC0" 6 v] by simp
  then show "(ucast (0xC0 + drop_bit 6 v) :: 8 word) = of_nat (0xC0 + unat v div 64)"
    by (simp only: ucast_of_nat)
  have "unat (0xE0 + drop_bit 12 v) = 0xE0 + unat v div 4096"
    using unat_lead [of "0xE0" 12 v] by simp
  then show "(ucast (0xE0 + drop_bit 12 v) :: 8 word) = of_nat (0xE0 + unat v div 4096)"
    by (simp only: ucast_of_nat)
  have "unat (0xF0 + drop_bit 18 v) = 0xF0 + unat v div 262144"
    using unat_lead [of "0xF0" 18 v] by simp
  then show "(ucast (0xF0 + drop_bit 18 v) :: 8 word) = of_nat (0xF0 + unat v div 262144)"
    by (simp only: ucast_of_nat)
qed

lemma octet_trail:
  fixes v :: "32 word"
  shows "(ucast (0x80 + (v AND 0x3F)) :: 8 word) = of_nat (0x80 + unat v mod 64)"
    and "(ucast (0x80 + (drop_bit 6 v AND 0x3F)) :: 8 word) = of_nat (0x80 + unat v div 64 mod 64)"
    and "(ucast (0x80 + (drop_bit 12 v AND 0x3F)) :: 8 word) = of_nat (0x80 + unat v div 4096 mod 64)"
proof -
  have t: "(ucast (0x80 + (x AND 0x3F)) :: 8 word) = of_nat (0x80 + unat x mod 64)"
    for x :: "32 word"
  proof -
    have "unat (0x80 + (x AND 0x3F)) = 0x80 + unat x mod 64"
      using unat_trail [of x] by simp
    then show ?thesis by (simp only: ucast_of_nat)
  qed
  show "(ucast (0x80 + (v AND 0x3F)) :: 8 word) = of_nat (0x80 + unat v mod 64)"
    by (rule t)
  show "(ucast (0x80 + (drop_bit 6 v AND 0x3F)) :: 8 word) = of_nat (0x80 + unat v div 64 mod 64)"
    using t [of "drop_bit 6 v"] by (simp add: unat_drop_bit_div)
  show "(ucast (0x80 + (drop_bit 12 v AND 0x3F)) :: 8 word) = of_nat (0x80 + unat v div 4096 mod 64)"
    using t [of "drop_bit 12 v"] by (simp add: unat_drop_bit_div)
qed

lemma utf8_octets_code:
  "utf8_octets v =
     (if v \<le> 0x7F then [ucast v]
      else if v \<le> 0x7FF then [ucast (0xC0 + drop_bit 6 v), ucast (0x80 + (v AND 0x3F))]
      else if v \<le> 0xFFFF
      then [ucast (0xE0 + drop_bit 12 v), ucast (0x80 + (drop_bit 6 v AND 0x3F)),
            ucast (0x80 + (v AND 0x3F))]
      else [ucast (0xF0 + drop_bit 18 v), ucast (0x80 + (drop_bit 12 v AND 0x3F)),
            ucast (0x80 + (drop_bit 6 v AND 0x3F)), ucast (0x80 + (v AND 0x3F))])"
  unfolding octet_lead octet_trail
  by (simp add: utf8_octets_def Let_def word_le_nat_alt unat_drop_bit_div)

lemma put_octet_contents:
  "length_b b < length (buffer b) \<Longrightarrow> contents (put_octet c b) = contents b @ [ucast c]"
  by (simp add: put_octet_def contents_def take_Suc_conv_app_nth)

lemma put_octet_fields [simp]:
  "length_b (put_octet c b) = length_b b + 1"
  "length (buffer (put_octet c b)) = length (buffer b)"
  "pointer (put_octet c b) = pointer b"
  "capacity (put_octet c b) = capacity b"
  by (simp_all add: put_octet_def)

lemma put_char_fields:
  "length_b (put_char v b) = length_b b + length (utf8_octets v)"
  "length (buffer (put_char v b)) = length (buffer b)"
  "pointer (put_char v b) = pointer b"
  "capacity (put_char v b) = capacity b"
  by (simp_all add: put_char_def utf8_octets_code)

lemma put_char_contents:
  assumes "length_b b + length (utf8_octets v) \<le> length (buffer b)"
  shows "contents (put_char v b) = contents b @ utf8_octets v"
  using assms by (simp add: put_char_def utf8_octets_code put_octet_contents split: if_splits)

lemma length_utf8_octets:
  "length (utf8_octets v) =
     (if v \<le> 0x7F then 1 else if v \<le> 0x7FF then 2 else if v \<le> 0xFFFF then 3 else 4)"
  by (simp add: utf8_octets_code)

text \<open>
  C7. When the decoding step succeeds, the pointer of the raw buffer and the stream
  offset have advanced by the width of the character in the source, the length of the
  buffer of decoded characters has grown by the number of octets of the value (one for
  a value up to \<open>0x7F\<close>, two up to \<open>0x7FF\<close>, three up to \<open>0xFFFF\<close>, four above), these
  octets are appended to its contents where the array has room for them, and the
  count of unread characters has grown by one.
\<close>

theorem decoded_char_is_stored:
  assumes "decode_step p = (Next, p')"
  shows "\<exists>v w. decode_char p = Decoded v w \<and>
           raw_input p' = (raw_input p)\<lparr>pointer := pointer (raw_input p) + w\<rparr> \<and>
           offset p' = offset p + w \<and>
           unread p' = unread p + 1 \<and>
           length_b (input p') = length_b (input p) + length (utf8_octets v) \<and>
           length (utf8_octets v) =
             (if v \<le> 0x7F then 1 else if v \<le> 0x7FF then 2 else if v \<le> 0xFFFF then 3 else 4) \<and>
           pointer (input p') = pointer (input p) \<and>
           (length_b (input p') \<le> length (buffer (input p)) \<longrightarrow>
              contents (input p') = contents (input p) @ utf8_octets v)"
proof -
  from decode_step_Next [OF assms] obtain v w where d: "decode_char p = Decoded v w"
    and p': "p' = p\<lparr>raw_input := (raw_input p)\<lparr>pointer := pointer (raw_input p) + w\<rparr>,
            offset := offset p + w, input := put_char v (input p), unread := unread p + 1\<rparr>"
    by blast
  have "contents (input p') = contents (input p) @ utf8_octets v"
    if "length_b (input p') \<le> length (buffer (input p))"
  proof -
    from that have "length_b (input p) + length (utf8_octets v) \<le> length (buffer (input p))"
      by (simp add: p' put_char_fields)
    from put_char_contents [OF this] show ?thesis by (simp add: p')
  qed
  with d p' show ?thesis
    by (simp add: put_char_fields length_utf8_octets)
qed

theorem decoded_char_is_stored_witness:
  "decode_step (decoding_parser YAML_UTF16LE_ENCODING False [0x3D, 0xD8, 0x00, 0xDE] 0) =
     (Next, (decoding_parser YAML_UTF16LE_ENCODING False [0x3D, 0xD8, 0x00, 0xDE] 4)
        \<lparr>input := \<lparr>buffer = [0xF0, 0x9F, 0x98, 0x80, 0, 0, 0, 0], pointer = 0, length_b = 4,
                    capacity = 8\<rparr>, unread := 1\<rparr>) \<and>
   utf8_octets 0x1F600 = [0xF0, 0x9F, 0x98, 0x80]"
proof -
  let ?p = "decoding_parser YAML_UTF16LE_ENCODING False [0x3D, 0xD8, 0x00, 0xDE] 0"
  let ?p' = "(decoding_parser YAML_UTF16LE_ENCODING False [0x3D, 0xD8, 0x00, 0xDE] 4)
        \<lparr>input := \<lparr>buffer = [0xF0, 0x9F, 0x98, 0x80, 0, 0, 0, 0], pointer = 0, length_b = 4,
                    capacity = 8\<rparr>, unread := 1\<rparr>"
  have h: "decode_step ?p = (Next, ?p')"
    by (simp add: eval_defs put_char_def put_octet_def drop_bit_eq_div)
  have r: "length_b (input ?p') \<le> length (buffer (input ?p))"
    by (simp add: decoding_parser_def)
  have d: "decode_char ?p = Decoded 0x1F600 4"
    by (simp add: eval_defs)
  from decoded_char_is_stored [OF h] d r
  have "contents (input ?p') = contents (input ?p) @ utf8_octets 0x1F600"
    by auto
  then have "utf8_octets 0x1F600 = [0xF0, 0x9F, 0x98, 0x80]"
    by (simp add: contents_def decoding_parser_def)
  with h show ?thesis by simp
qed

section \<open>Decoding UTF-16\<close>

lemma div_1024: "((x::nat) div 1024 * 1024 = k * 1024) = (k * 1024 \<le> x \<and> x < (k + 1) * 1024)"
  by (auto simp: div_nat_eqI)

lemma unat_and_fc00:
  fixes u :: "32 word"
  assumes "u \<le> 0xFFFF"
  shows "unat (u AND 0xFC00) = (unat u div 1024) * 1024"
proof -
  from assms have lt: "unat u < 2 ^ 16" by (simp add: word_le_nat_alt)
  then have "take_bit 16 (unat u) = unat u"
    by (simp add: take_bit_nat_eq_self)
  then have b: "\<And>n. bit (unat u) n \<Longrightarrow> n < 16"
    by (metis bit_take_bit_iff)
  have "unat (u AND 0xFC00) = unat u AND 0xFC00"
    by (simp add: unsigned_and_eq)
  also have "(0xFC00 :: nat) = push_bit 10 (mask 6)"
    by (simp add: mask_eq_exp_minus_1)
  also have "unat u AND push_bit 10 (mask 6) = push_bit 10 (drop_bit 10 (unat u))"
  proof (rule bit_eqI)
    fix n
    show "bit (unat u AND push_bit 10 (mask 6)) n = bit (push_bit 10 (drop_bit 10 (unat u))) n"
      using b [of n]
      by (auto simp add: bit_and_iff bit_push_bit_iff bit_mask_iff bit_drop_bit_eq
          simp del: bit_unsigned_iff)
  qed
  also have "\<dots> = (unat u div 1024) * 1024"
    by (simp add: push_bit_eq_mult drop_bit_eq_div)
  finally show ?thesis .
qed

lemma high_surrogate_iff:
  fixes u :: "32 word"
  assumes "u \<le> 0xFFFF"
  shows "(u AND 0xFC00 = 0xD800) = (0xD800 \<le> u \<and> u \<le> 0xDBFF)"
proof -
  have "(u AND 0xFC00 = 0xD800) = (unat (u AND 0xFC00) = unat (0xD800 :: 32 word))"
    by (simp only: word_unat_eq_iff)
  also have "\<dots> = (unat u div 1024 * 1024 = 54 * 1024)"
    by (simp add: unat_and_fc00 [OF assms])
  also have "\<dots> = (54 * 1024 \<le> unat u \<and> unat u < (54 + 1) * 1024)"
    by (rule div_1024)
  also have "\<dots> = (0xD800 \<le> u \<and> u \<le> 0xDBFF)"
    by (auto simp add: word_le_nat_alt)
  finally show ?thesis .
qed

lemma low_surrogate_iff:
  fixes u :: "32 word"
  assumes "u \<le> 0xFFFF"
  shows "(u AND 0xFC00 = 0xDC00) = (0xDC00 \<le> u \<and> u \<le> 0xDFFF)"
proof -
  have "(u AND 0xFC00 = 0xDC00) = (unat (u AND 0xFC00) = unat (0xDC00 :: 32 word))"
    by (simp only: word_unat_eq_iff)
  also have "\<dots> = (unat u div 1024 * 1024 = 55 * 1024)"
    by (simp add: unat_and_fc00 [OF assms])
  also have "\<dots> = (55 * 1024 \<le> unat u \<and> unat u < (55 + 1) * 1024)"
    by (rule div_1024)
  also have "\<dots> = (0xDC00 \<le> u \<and> u \<le> 0xDFFF)"
    by (auto simp add: word_le_nat_alt)
  finally show ?thesis .
qed

lemma unat_ucast_octet:
  fixes a :: "8 word"
  shows "unat (ucast a :: 32 word) = unat a"
proof -
  have "unat a < 2 ^ LENGTH(8)" by (rule unsigned_less)
  then have lt: "unat a < 2 ^ 32" by simp
  have "unat (ucast a :: 32 word) = take_bit 32 (unat a)"
    by (simp add: unsigned_ucast_eq)
  also have "\<dots> = unat a"
    by (rule take_bit_nat_eq_self) (rule lt)
  finally show ?thesis .
qed

lemma unat_unit:
  fixes a b :: "8 word"
  shows "unat (ucast a + push_bit 8 (ucast b) :: 32 word) = unat a + 256 * unat b"
proof -
  have "unat a < 2 ^ LENGTH(8)" by (rule unsigned_less)
  then have a: "unat a < 256" by simp
  have "unat b < 2 ^ LENGTH(8)" by (rule unsigned_less)
  then have b: "unat b < 256" by simp
  have "unat (push_bit 8 (ucast b :: 32 word)) = take_bit 32 (push_bit 8 (unat (ucast b :: 32 word)))"
    by (simp only: unsigned_push_bit_eq len_of_numeral_defs) simp
  also have "\<dots> = take_bit 32 (256 * unat b)"
    by (simp add: unat_ucast_octet push_bit_eq_mult mult.commute)
  also have "\<dots> = 256 * unat b"
    by (rule take_bit_nat_eq_self) (use b in simp)
  finally have 2: "unat (push_bit 8 (ucast b :: 32 word)) = 256 * unat b" .
  have "unat (ucast a + push_bit 8 (ucast b) :: 32 word) =
        unat (ucast a :: 32 word) + unat (push_bit 8 (ucast b :: 32 word))"
    by (rule unat_add_lem [THEN iffD1]) (use a b 2 in \<open>simp add: unat_ucast_octet\<close>)
  with 2 show ?thesis by (simp add: unat_ucast_octet)
qed

lemma unat_utf16_unit:
  "unat (utf16_unit raw lo hi) = unat (raw ! lo) + 256 * unat (raw ! hi)"
  by (simp only: utf16_unit_def unat_unit)

lemma utf16_unit_le: "utf16_unit raw lo hi \<le> 0xFFFF"
proof -
  have "unat (raw ! lo) < 2 ^ LENGTH(8)" by (rule unsigned_less)
  moreover have "unat (raw ! hi) < 2 ^ LENGTH(8)" by (rule unsigned_less)
  ultimately show ?thesis
    by (simp add: word_le_nat_alt unat_utf16_unit)
qed

lemmas surrogate_iffs =
  high_surrogate_iff [OF utf16_unit_le] low_surrogate_iff [OF utf16_unit_le]
lemma utf16_first_le: "utf16_first p \<le> 0xFFFF"
  by (simp add: utf16_first_def Let_def utf16_unit_le)

lemma utf16_second_le: "utf16_second p \<le> 0xFFFF"
  by (simp add: utf16_second_def Let_def utf16_unit_le)

lemma decode_utf16_units:
  "decode_utf16 p =
     (if raw_unread p < 2
      then (if is_eof p then Invalid ''Incomplete UTF-16 character'' (offset p) (- 1)
            else Incomplete)
      else if utf16_first p AND 0xFC00 = 0xDC00
      then Invalid ''Unexpected low surrogate area'' (offset p) (uint (utf16_first p))
      else if utf16_first p AND 0xFC00 = 0xD800
      then (if raw_unread p < 4
            then (if is_eof p then Invalid ''Incomplete UTF-16 surrogate pair'' (offset p) (- 1)
                  else Incomplete)
            else if utf16_second p AND 0xFC00 \<noteq> 0xDC00
            then Invalid ''Expected low surrogate area'' (offset p + 2) (uint (utf16_second p))
            else Decoded (0x10000 + push_bit 10 (utf16_first p AND 0x3FF)
                            + (utf16_second p AND 0x3FF)) 4)
      else Decoded (utf16_first p) 2)"
  unfolding decode_utf16_def utf16_first_def utf16_second_def Let_def ..

lemma decode_utf16_ranges:
  "decode_utf16 p =
     (if raw_unread p < 2
      then (if is_eof p then Invalid ''Incomplete UTF-16 character'' (offset p) (- 1)
            else Incomplete)
      else if utf16_first p \<in> {0xDC00..0xDFFF}
      then Invalid ''Unexpected low surrogate area'' (offset p) (uint (utf16_first p))
      else if utf16_first p \<in> {0xD800..0xDBFF}
      then (if raw_unread p < 4
            then (if is_eof p then Invalid ''Incomplete UTF-16 surrogate pair'' (offset p) (- 1)
                  else Incomplete)
            else if utf16_second p \<notin> {0xDC00..0xDFFF}
            then Invalid ''Expected low surrogate area'' (offset p + 2) (uint (utf16_second p))
            else Decoded (0x10000 + push_bit 10 (utf16_first p AND 0x3FF)
                            + (utf16_second p AND 0x3FF)) 4)
      else Decoded (utf16_first p) 2)"
  unfolding decode_utf16_units
  by (simp only: high_surrogate_iff [OF utf16_first_le] low_surrogate_iff [OF utf16_first_le]
      low_surrogate_iff [OF utf16_second_le] atLeastAtMost_iff)

lemma unat_utf16_first:
  "unat (utf16_first p) =
     (if encoding p = YAML_UTF16LE_ENCODING
      then unat (raw_buffer p ! 0) + 256 * unat (raw_buffer p ! 1)
      else unat (raw_buffer p ! 1) + 256 * unat (raw_buffer p ! 0))"
  by (simp add: utf16_first_def unat_utf16_unit)

lemma surrogate_ranges_disjoint:
  fixes u :: u32
  shows "u \<in> {0xDC00..0xDFFF} \<Longrightarrow> u \<notin> {0xD800..0xDBFF}"
    and "u \<notin> {0xD800..0xDFFF} \<Longrightarrow> u \<notin> {0xDC00..0xDFFF} \<and> u \<notin> {0xD800..0xDBFF}"
  by (auto simp: word_le_nat_alt)

text \<open>
  C4. In either byte order, with two bytes in the raw buffer: the unit is the byte at
  the low index plus 256 times the byte at the high index; a unit in
  \<open>0xDC00\<close>--\<open>0xDFFF\<close> fails with "Unexpected low surrogate area"; a unit in
  \<open>0xD800\<close>--\<open>0xDBFF\<close> needs four bytes in the raw buffer (with fewer, the character is
  incomplete) and a second unit in \<open>0xDC00\<close>--\<open>0xDFFF\<close>, without which it fails with
  "Expected low surrogate area" at the offset of the second unit; the pair decodes to
  \<open>0x10000 + ((high & 0x3FF) << 10) + (low & 0x3FF)\<close> with the width 4; any other
  unit decodes to itself with the width 2.
\<close>

theorem utf16_decoding:
  assumes "encoding p = YAML_UTF16LE_ENCODING \<or> encoding p = YAML_UTF16BE_ENCODING"
    and "2 \<le> raw_unread p"
  shows "unat (utf16_first p) =
           (if encoding p = YAML_UTF16LE_ENCODING
            then unat (raw_buffer p ! 0) + 256 * unat (raw_buffer p ! 1)
            else unat (raw_buffer p ! 1) + 256 * unat (raw_buffer p ! 0)) \<and>
         (utf16_first p \<in> {0xDC00..0xDFFF} \<longrightarrow>
            decode_step p = (Return0, DECODER_ERROR_INIT p ''Unexpected low surrogate area''
                               (offset p) (uint (utf16_first p)))) \<and>
         (utf16_first p \<in> {0xD800..0xDBFF} \<and> raw_unread p < 4 \<longrightarrow>
            decode_char p = (if is_eof p
                             then Invalid ''Incomplete UTF-16 surrogate pair'' (offset p) (- 1)
                             else Incomplete)) \<and>
         (utf16_first p \<in> {0xD800..0xDBFF} \<and> 4 \<le> raw_unread p \<and>
          utf16_second p \<notin> {0xDC00..0xDFFF} \<longrightarrow>
            decode_step p = (Return0, DECODER_ERROR_INIT p ''Expected low surrogate area''
                               (offset p + 2) (uint (utf16_second p)))) \<and>
         (utf16_first p \<in> {0xD800..0xDBFF} \<and> 4 \<le> raw_unread p \<and>
          utf16_second p \<in> {0xDC00..0xDFFF} \<longrightarrow>
            decode_char p = Decoded (0x10000 + push_bit 10 (utf16_first p AND 0x3FF)
                                       + (utf16_second p AND 0x3FF)) 4) \<and>
         (utf16_first p \<notin> {0xD800..0xDFFF} \<longrightarrow> decode_char p = Decoded (utf16_first p) 2)"
proof -
  from assms(1) have c: "decode_char p = decode_utf16 p"
    by (auto simp: decode_char_def)
  have s: "decode_step p =
      (case decode_utf16 p of
        Invalid msg off v \<Rightarrow> (Return0, DECODER_ERROR_INIT p msg off v)
      | Incomplete \<Rightarrow> (Break, p)
      | Decoded v width \<Rightarrow>
          if \<not> allowed v
          then (Return0,
                DECODER_ERROR_INIT p ''Control characters are not allowed'' (offset p) (uint v))
          else (Next,
                p\<lparr>raw_input := (raw_input p)\<lparr>pointer := pointer (raw_input p) + width\<rparr>,
                  offset := offset p + width,
                  input := put_char v (input p),
                  unread := unread p + 1\<rparr>))"
    by (simp only: decode_step_def c)
  from assms(2) have n: "\<not> raw_unread p < 2" by simp
  have low: "decode_utf16 p =
      Invalid ''Unexpected low surrogate area'' (offset p) (uint (utf16_first p))"
    if "utf16_first p \<in> {0xDC00..0xDFFF}"
    by (simp only: decode_utf16_ranges n that if_True if_False)
  have short: "decode_utf16 p =
      (if is_eof p then Invalid ''Incomplete UTF-16 surrogate pair'' (offset p) (- 1)
       else Incomplete)"
    if "utf16_first p \<in> {0xD800..0xDBFF}" and "raw_unread p < 4"
  proof -
    from that(1) have "utf16_first p \<notin> {0xDC00..0xDFFF}"
      using surrogate_ranges_disjoint(1) by blast
    then show ?thesis
      by (simp only: decode_utf16_ranges n that if_True if_False)
  qed
  have nolow: "decode_utf16 p =
      Invalid ''Expected low surrogate area'' (offset p + 2) (uint (utf16_second p))"
    if "utf16_first p \<in> {0xD800..0xDBFF}" and "4 \<le> raw_unread p"
      and "utf16_second p \<notin> {0xDC00..0xDFFF}"
  proof -
    from that(1) have "utf16_first p \<notin> {0xDC00..0xDFFF}"
      using surrogate_ranges_disjoint(1) by blast
    moreover from that(2) have "\<not> raw_unread p < 4" by simp
    ultimately show ?thesis
      by (simp only: decode_utf16_ranges n that if_True if_False not_False_eq_True)
  qed
  have pair: "decode_utf16 p =
      Decoded (0x10000 + push_bit 10 (utf16_first p AND 0x3FF) + (utf16_second p AND 0x3FF)) 4"
    if "utf16_first p \<in> {0xD800..0xDBFF}" and "4 \<le> raw_unread p"
      and "utf16_second p \<in> {0xDC00..0xDFFF}"
  proof -
    from that(1) have "utf16_first p \<notin> {0xDC00..0xDFFF}"
      using surrogate_ranges_disjoint(1) by blast
    moreover from that(2) have "\<not> raw_unread p < 4" by simp
    ultimately show ?thesis
      by (simp only: decode_utf16_ranges n that if_True if_False not_True_eq_False)
  qed
  have single: "decode_utf16 p = Decoded (utf16_first p) 2"
    if "utf16_first p \<notin> {0xD800..0xDFFF}"
  proof -
    from surrogate_ranges_disjoint(2) [OF that]
    have "utf16_first p \<notin> {0xDC00..0xDFFF}" and "utf16_first p \<notin> {0xD800..0xDBFF}"
      by simp_all
    then show ?thesis
      by (simp only: decode_utf16_ranges n if_True if_False)
  qed
  show ?thesis
    by (simp only: unat_utf16_first s c) (simp add: low short nolow pair single)
qed

theorem utf16_decoding_witness:
  "(encoding (decoding_parser YAML_UTF16LE_ENCODING False [0x3D, 0xD8, 0x00, 0xDE] 0) = YAML_UTF16LE_ENCODING \<or>
    encoding (decoding_parser YAML_UTF16LE_ENCODING False [0x3D, 0xD8, 0x00, 0xDE] 0) = YAML_UTF16BE_ENCODING) \<and>
   2 \<le> raw_unread (decoding_parser YAML_UTF16LE_ENCODING False [0x3D, 0xD8, 0x00, 0xDE] 0) \<and>
   utf16_first (decoding_parser YAML_UTF16LE_ENCODING False [0x3D, 0xD8, 0x00, 0xDE] 0) = 0xD83D \<and>
   utf16_second (decoding_parser YAML_UTF16LE_ENCODING False [0x3D, 0xD8, 0x00, 0xDE] 0) = 0xDE00 \<and>
   decode_char (decoding_parser YAML_UTF16LE_ENCODING False [0x3D, 0xD8, 0x00, 0xDE] 0) =
     Decoded 0x1F600 4"
proof -
  let ?p = "decoding_parser YAML_UTF16LE_ENCODING False [0x3D, 0xD8, 0x00, 0xDE] 0"
  have e: "encoding ?p = YAML_UTF16LE_ENCODING \<or> encoding ?p = YAML_UTF16BE_ENCODING"
    by (simp add: decoding_parser_def)
  have n: "2 \<le> raw_unread ?p" by (simp add: eval_defs)
  have u: "utf16_first ?p = 0xD83D" "utf16_second ?p = 0xDE00"
    by (simp_all add: eval_defs)
  have r: "raw_unread ?p = 4" by (simp add: eval_defs)
  from utf16_decoding [OF e n] e n u show ?thesis
    by (simp add: r)
qed

section \<open>Decoding UTF-8: the errors\<close>

lemma utf8_trailing_valid:
  "(\<forall>i. k \<le> i \<and> i < width \<longrightarrow> raw ! i AND 0xC0 = 0x80) \<Longrightarrow>
   utf8_trailing raw width k v =
     Inr (foldl (\<lambda>v c. push_bit 6 v + ucast (c AND 0x3F)) v (map (\<lambda>k. raw ! k) [k..<width]))"
proof (induction raw width k v rule: utf8_trailing.induct)
  case (1 raw width k v)
  show ?case
  proof (cases "k < width")
    case True
    with 1 have ok: "raw ! k AND 0xC0 = 0x80" by simp
    from True have u: "[k..<width] = k # [k + 1..<width]"
      by (simp add: upt_conv_Cons)
    from 1 True ok show ?thesis
      by (subst utf8_trailing.simps) (simp add: u Let_def)
  next
    case False
    then show ?thesis by (subst utf8_trailing.simps) simp
  qed
qed

lemma utf8_trailing_value:
  "(\<forall>i. 1 \<le> i \<and> i < width \<longrightarrow> raw ! i AND 0xC0 = 0x80) \<Longrightarrow>
   utf8_trailing raw width 1 (utf8_leading (raw ! 0)) = Inr (utf8_value raw width)"
  by (simp add: utf8_trailing_valid utf8_value_def)

lemma utf8_width_0:
  "(utf8_width c = 0) =
     (c AND 0x80 \<noteq> 0x00 \<and> c AND 0xE0 \<noteq> 0xC0 \<and> c AND 0xF0 \<noteq> 0xE0 \<and> c AND 0xF8 \<noteq> 0xF0)"
  by (simp add: utf8_width_def)

text \<open>
  C3. In UTF-8: a leading octet that matches none of the four patterns fails with
  "Invalid leading UTF-8 octet". A sequence that is in the raw buffer with all its
  trailing octets of the form \<open>10xxxxxx\<close> fails with "Invalid length of a UTF-8
  sequence" when its value is below the least value of its width (\<open>0x80\<close> for two
  octets, \<open>0x800\<close> for three, \<open>0x10000\<close> for four), and otherwise fails with "Invalid
  Unicode character" when its value is in \<open>0xD800\<close>--\<open>0xDFFF\<close> or above \<open>0x10FFFF\<close>.
\<close>

theorem utf8_errors:
  assumes "encoding p = YAML_UTF8_ENCODING"
  shows "let c = raw_buffer p ! 0; width = utf8_width c; v = utf8_value (raw_buffer p) width
         in (c AND 0x80 \<noteq> 0x00 \<and> c AND 0xE0 \<noteq> 0xC0 \<and> c AND 0xF0 \<noteq> 0xE0 \<and> c AND 0xF8 \<noteq> 0xF0 \<longrightarrow>
               decode_step p = (Return0, DECODER_ERROR_INIT p ''Invalid leading UTF-8 octet''
                                  (offset p) (uint c))) \<and>
            (width \<le> raw_unread p \<and>
             (\<forall>i. 1 \<le> i \<and> i < width \<longrightarrow> raw_buffer p ! i AND 0xC0 = 0x80) \<longrightarrow>
               ((width = 2 \<and> v < 0x80 \<or> width = 3 \<and> v < 0x800 \<or> width = 4 \<and> v < 0x10000) \<longrightarrow>
                  decode_step p = (Return0, DECODER_ERROR_INIT p
                                     ''Invalid length of a UTF-8 sequence'' (offset p) (- 1))) \<and>
               ((width = 1 \<or> width = 2 \<and> 0x80 \<le> v \<or> width = 3 \<and> 0x800 \<le> v
                   \<or> width = 4 \<and> 0x10000 \<le> v) \<and>
                (v \<in> {0xD800..0xDFFF} \<or> 0x10FFFF < v) \<longrightarrow>
                  decode_step p = (Return0, DECODER_ERROR_INIT p ''Invalid Unicode character''
                                     (offset p) (uint v))))"
proof -
  define c where "c = raw_buffer p ! 0"
  define width where "width = utf8_width c"
  define v where "v = utf8_value (raw_buffer p) width"
  from assms have dc: "decode_char p = decode_utf8 p"
    by (simp add: decode_char_def)
  have lead: "decode_utf8 p = Invalid ''Invalid leading UTF-8 octet'' (offset p) (uint c)"
    if "width = 0"
    using that by (simp add: decode_utf8_def Let_def c_def width_def)
  have rest: "decode_utf8 p =
      (if \<not> (width = 1 \<or> (width = 2 \<and> v \<ge> 0x80) \<or> (width = 3 \<and> v \<ge> 0x800)
                          \<or> (width = 4 \<and> v \<ge> 0x10000))
       then Invalid ''Invalid length of a UTF-8 sequence'' (offset p) (- 1)
       else if (v \<ge> 0xD800 \<and> v \<le> 0xDFFF) \<or> v > 0x10FFFF
       then Invalid ''Invalid Unicode character'' (offset p) (uint v)
       else Decoded v width)"
    if "width \<noteq> 0" and "width \<le> raw_unread p"
      and "\<forall>i. 1 \<le> i \<and> i < width \<longrightarrow> raw_buffer p ! i AND 0xC0 = 0x80"
  proof -
    from utf8_trailing_value [OF that(3)]
    have "utf8_trailing (raw_buffer p) width 1 (utf8_leading c) = Inr v"
      by (simp add: c_def v_def)
    with that(1,2) show ?thesis
      by (simp add: decode_utf8_def Let_def c_def [symmetric] width_def [symmetric])
  qed
  have a: "decode_step p =
      (Return0, DECODER_ERROR_INIT p ''Invalid leading UTF-8 octet'' (offset p) (uint c))"
    if "c AND 0x80 \<noteq> 0x00 \<and> c AND 0xE0 \<noteq> 0xC0 \<and> c AND 0xF0 \<noteq> 0xE0 \<and> c AND 0xF8 \<noteq> 0xF0"
  proof -
    from that have "width = 0" by (simp add: width_def utf8_width_0)
    from lead [OF this] show ?thesis by (simp add: decode_step_def dc)
  qed
  have b: "decode_step p =
      (Return0, DECODER_ERROR_INIT p ''Invalid length of a UTF-8 sequence'' (offset p) (- 1))"
    if "width \<le> raw_unread p"
      and "\<forall>i. 1 \<le> i \<and> i < width \<longrightarrow> raw_buffer p ! i AND 0xC0 = 0x80"
      and "width = 2 \<and> v < 0x80 \<or> width = 3 \<and> v < 0x800 \<or> width = 4 \<and> v < 0x10000"
  proof -
    from that(3) have "width \<noteq> 0" by auto
    from rest [OF this that(1,2)] that(3) show ?thesis
      by (auto simp add: decode_step_def dc not_le)
  qed
  have d: "decode_step p =
      (Return0, DECODER_ERROR_INIT p ''Invalid Unicode character'' (offset p) (uint v))"
    if "width \<le> raw_unread p"
      and "\<forall>i. 1 \<le> i \<and> i < width \<longrightarrow> raw_buffer p ! i AND 0xC0 = 0x80"
      and "width = 1 \<or> width = 2 \<and> 0x80 \<le> v \<or> width = 3 \<and> 0x800 \<le> v
                   \<or> width = 4 \<and> 0x10000 \<le> v"
      and "v \<in> {0xD800..0xDFFF} \<or> 0x10FFFF < v"
  proof -
    from that(3) have "width \<noteq> 0" by auto
    from rest [OF this that(1,2)] that(3,4) show ?thesis
      by (auto simp add: decode_step_def dc)
  qed
  show ?thesis
    unfolding Let_def c_def [symmetric] width_def [symmetric] v_def [symmetric]
    using a b d by blast
qed

theorem utf8_errors_witness:
  "encoding (decoding_parser YAML_UTF8_ENCODING False [0xC0, 0x80] 0) = YAML_UTF8_ENCODING \<and>
   decode_step (decoding_parser YAML_UTF8_ENCODING False [0xC0, 0x80] 0) =
     (Return0, DECODER_ERROR_INIT (decoding_parser YAML_UTF8_ENCODING False [0xC0, 0x80] 0)
        ''Invalid length of a UTF-8 sequence'' 0 (- 1)) \<and>
   decode_step (decoding_parser YAML_UTF8_ENCODING False [0xFF] 0) =
     (Return0, DECODER_ERROR_INIT (decoding_parser YAML_UTF8_ENCODING False [0xFF] 0)
        ''Invalid leading UTF-8 octet'' 0 255) \<and>
   decode_step (decoding_parser YAML_UTF8_ENCODING False [0xED, 0xA0, 0x80] 0) =
     (Return0, DECODER_ERROR_INIT (decoding_parser YAML_UTF8_ENCODING False [0xED, 0xA0, 0x80] 0)
        ''Invalid Unicode character'' 0 0xD800)"
proof -
  let ?p = "decoding_parser YAML_UTF8_ENCODING False [0xC0, 0x80] 0"
  let ?q = "decoding_parser YAML_UTF8_ENCODING False [0xFF] 0"
  let ?r = "decoding_parser YAML_UTF8_ENCODING False [0xED, 0xA0, 0x80] 0"
  have e: "encoding ?p = YAML_UTF8_ENCODING" "encoding ?q = YAML_UTF8_ENCODING"
    "encoding ?r = YAML_UTF8_ENCODING"
    by (simp_all add: decoding_parser_def)
  have p1: "utf8_width (raw_buffer ?p ! 0) \<le> raw_unread ?p"
    by (simp add: eval_defs)
  have p2: "\<forall>i. 1 \<le> i \<and> i < utf8_width (raw_buffer ?p ! 0) \<longrightarrow> raw_buffer ?p ! i AND 0xC0 = 0x80"
    by (auto simp: eval_defs less_Suc_eq numeral_2_eq_2)
  have "utf8_value (raw_buffer ?p) (utf8_width (raw_buffer ?p ! 0)) = 0"
    by code_simp
  then have p3: "utf8_width (raw_buffer ?p ! 0) = 2 \<and>
      utf8_value (raw_buffer ?p) (utf8_width (raw_buffer ?p ! 0)) < 0x80"
    by (simp add: eval_defs)
  from utf8_errors [OF e(1), unfolded Let_def] p1 p2 p3
  have P: "decode_step ?p = (Return0, DECODER_ERROR_INIT ?p
      ''Invalid length of a UTF-8 sequence'' (offset ?p) (- 1))"
    by blast
  have q1: "raw_buffer ?q ! 0 AND 0x80 \<noteq> 0x00 \<and> raw_buffer ?q ! 0 AND 0xE0 \<noteq> 0xC0 \<and>
      raw_buffer ?q ! 0 AND 0xF0 \<noteq> 0xE0 \<and> raw_buffer ?q ! 0 AND 0xF8 \<noteq> 0xF0"
    by (simp add: eval_defs)
  from utf8_errors [OF e(2), unfolded Let_def] q1
  have Q: "decode_step ?q = (Return0, DECODER_ERROR_INIT ?q
      ''Invalid leading UTF-8 octet'' (offset ?q) (uint (raw_buffer ?q ! 0)))"
    by blast
  have r1: "utf8_width (raw_buffer ?r ! 0) \<le> raw_unread ?r"
    by (simp add: eval_defs)
  have r2: "\<forall>i. 1 \<le> i \<and> i < utf8_width (raw_buffer ?r ! 0) \<longrightarrow> raw_buffer ?r ! i AND 0xC0 = 0x80"
    by (auto simp: eval_defs less_Suc_eq numeral_3_eq_3)
  have rv: "utf8_value (raw_buffer ?r) (utf8_width (raw_buffer ?r ! 0)) = 0xD800"
    by code_simp
  have r3: "utf8_width (raw_buffer ?r ! 0) = 1 \<or>
      utf8_width (raw_buffer ?r ! 0) = 2 \<and> 0x80 \<le> utf8_value (raw_buffer ?r) (utf8_width (raw_buffer ?r ! 0)) \<or>
      utf8_width (raw_buffer ?r ! 0) = 3 \<and> 0x800 \<le> utf8_value (raw_buffer ?r) (utf8_width (raw_buffer ?r ! 0)) \<or>
      utf8_width (raw_buffer ?r ! 0) = 4 \<and> 0x10000 \<le> utf8_value (raw_buffer ?r) (utf8_width (raw_buffer ?r ! 0))"
    unfolding rv by (simp add: eval_defs)
  have r4: "utf8_value (raw_buffer ?r) (utf8_width (raw_buffer ?r ! 0)) \<in> {0xD800..0xDFFF} \<or>
      0x10FFFF < utf8_value (raw_buffer ?r) (utf8_width (raw_buffer ?r ! 0))"
    unfolding rv by simp
  from utf8_errors [OF e(3), unfolded Let_def] r1 r2 r3 r4
  have R: "decode_step ?r = (Return0, DECODER_ERROR_INIT ?r
      ''Invalid Unicode character'' (offset ?r)
      (uint (utf8_value (raw_buffer ?r) (utf8_width (raw_buffer ?r ! 0)))))"
    by blast
  have o: "offset ?p = 0" "offset ?q = 0" "offset ?r = 0" "uint (raw_buffer ?q ! 0) = 255"
    by (simp_all add: eval_defs)
  from P Q R e(1) show ?thesis
    unfolding rv o by simp
qed

section \<open>An incomplete character\<close>

lemma decode_all_Break:
  "decode_step p = (Break, p) \<Longrightarrow> decode_all p = (True, p)"
  by (subst decode_all.simps) simp

text \<open>
  Where the raw buffer holds fewer bytes than the character at its pointer needs
  (fewer than the width that the leading octet announces in UTF-8; fewer than two, or
  fewer than four after a high surrogate, in UTF-16): with the EOF flag set the step
  returns the decoder error for an incomplete character; without it the step is the
  \<^verbatim>\<open>break\<close> that leaves the parser as it was, and the inner loop ends without an
  error.
\<close>

lemma incomplete_outcome:
  assumes "encoding p = YAML_UTF8_ENCODING \<and> utf8_width (raw_buffer p ! 0) \<noteq> 0 \<and>
             raw_unread p < utf8_width (raw_buffer p ! 0)
           \<or> (encoding p = YAML_UTF16LE_ENCODING \<or> encoding p = YAML_UTF16BE_ENCODING) \<and>
             (raw_unread p < 2 \<or> raw_unread p < 4 \<and> utf16_first p \<in> {0xD800..0xDBFF})"
  shows "(is_eof p \<longrightarrow>
            decode_step p =
              (Return0, DECODER_ERROR_INIT p
                 (if encoding p = YAML_UTF8_ENCODING then ''Incomplete UTF-8 octet sequence''
                  else if raw_unread p < 2 then ''Incomplete UTF-16 character''
                  else ''Incomplete UTF-16 surrogate pair'') (offset p) (- 1))) \<and>
         (\<not> is_eof p \<longrightarrow> decode_step p = (Break, p) \<and> decode_all p = (True, p))"
proof -
  have dc: "decode_char p =
      (if is_eof p
       then Invalid (if encoding p = YAML_UTF8_ENCODING then ''Incomplete UTF-8 octet sequence''
                  else if raw_unread p < 2 then ''Incomplete UTF-16 character''
                  else ''Incomplete UTF-16 surrogate pair'') (offset p) (- 1)
       else Incomplete)"
    using assms
  proof (elim disjE conjE)
    assume "encoding p = YAML_UTF8_ENCODING" "utf8_width (raw_buffer p ! 0) \<noteq> 0"
      "raw_unread p < utf8_width (raw_buffer p ! 0)"
    then show ?thesis by (simp add: decode_char_def decode_utf8_def Let_def)
  next
    assume "encoding p = YAML_UTF16LE_ENCODING" "raw_unread p < 2"
    then show ?thesis by (simp add: decode_char_def decode_utf16_ranges)
  next
    assume "encoding p = YAML_UTF16BE_ENCODING" "raw_unread p < 2"
    then show ?thesis by (simp add: decode_char_def decode_utf16_ranges)
  next
    assume e: "encoding p = YAML_UTF16LE_ENCODING"
      and "raw_unread p < 4" "utf16_first p \<in> {0xD800..0xDBFF}"
    moreover from this have "utf16_first p \<notin> {0xDC00..0xDFFF}"
      using surrogate_ranges_disjoint(1) by blast
    ultimately have "decode_utf16 p = (if is_eof p
       then Invalid (if raw_unread p < 2 then ''Incomplete UTF-16 character''
                  else ''Incomplete UTF-16 surrogate pair'') (offset p) (- 1)
       else Incomplete)"
      by (simp only: decode_utf16_ranges if_True if_False split: if_splits) simp
    with e show ?thesis by (simp add: decode_char_def)
  next
    assume e: "encoding p = YAML_UTF16BE_ENCODING"
      and "raw_unread p < 4" "utf16_first p \<in> {0xD800..0xDBFF}"
    moreover from this have "utf16_first p \<notin> {0xDC00..0xDFFF}"
      using surrogate_ranges_disjoint(1) by blast
    ultimately have "decode_utf16 p = (if is_eof p
       then Invalid (if raw_unread p < 2 then ''Incomplete UTF-16 character''
                  else ''Incomplete UTF-16 surrogate pair'') (offset p) (- 1)
       else Incomplete)"
      by (simp only: decode_utf16_ranges if_True if_False split: if_splits) simp
    with e show ?thesis by (simp add: decode_char_def)
  qed
  have eof: "decode_step p =
              (Return0, DECODER_ERROR_INIT p
                 (if encoding p = YAML_UTF8_ENCODING then ''Incomplete UTF-8 octet sequence''
                  else if raw_unread p < 2 then ''Incomplete UTF-16 character''
                  else ''Incomplete UTF-16 surrogate pair'') (offset p) (- 1))" if "is_eof p"
    using that by (simp only: decode_step_def dc if_True decode_outcome.case)
  have br: "decode_step p = (Break, p)" if "\<not> is_eof p"
    using that by (simp only: decode_step_def dc if_False decode_outcome.case)
  from eof br decode_all_Break show ?thesis by blast
qed

text \<open>
  C9. The claim is that an incomplete character ends the decoding pass without an
  error, that more raw bytes are then fetched and the same character is decoded
  again, and that this never comes to the caller as an error. The step itself does
  what the claim says, but the retry does not: the next update of the raw buffer
  moves the bytes of the incomplete character to the front and leaves the length as it
  was, so that bytes decoded before stand between them and the bytes that arrive. On
  the stream \<open>41 42 43 E2 82 AC\<close> (the letters A, B, C and \<open>U+20AC\<close>), read byte by byte
  in a call for four characters: with \<open>41 42 43 E2\<close> in the raw buffer the step at
  \<open>E2\<close> is the \<^verbatim>\<open>break\<close>; the update leaves \<open>E2 42 43 E2 82\<close> with the pointer 0; the
  call returns 0 with the decoder error "Invalid trailing UTF-8 octet" (offset 4,
  value \<open>0x42\<close>), with the EOF flag not set and one byte still to come. Read in one
  piece, the same stream gives the four characters and the NUL.
\<close>

theorem retry_after_incomplete_reads_stale_bytes:
  "decode_step ((new_parser 16 16 [0x82, 0xAC :: octet])
       \<lparr>raw_input := \<lparr>buffer = [0x41, 0x42, 0x43, 0xE2, 0, 0, 0, 0, 0, 0, 0, 0, 0, 0, 0, 0],
                        pointer = 3, length_b = 4, capacity = 16\<rparr>,
         input := \<lparr>buffer = [0x41, 0x42, 0x43, 0, 0, 0, 0, 0, 0, 0, 0, 0, 0, 0, 0, 0],
                    pointer = 0, length_b = 3, capacity = 16\<rparr>,
         unread := 3, encoding := YAML_UTF8_ENCODING, offset := 3\<rparr>) =
     (Break, (new_parser 16 16 [0x82, 0xAC :: octet])
       \<lparr>raw_input := \<lparr>buffer = [0x41, 0x42, 0x43, 0xE2, 0, 0, 0, 0, 0, 0, 0, 0, 0, 0, 0, 0],
                        pointer = 3, length_b = 4, capacity = 16\<rparr>,
         input := \<lparr>buffer = [0x41, 0x42, 0x43, 0, 0, 0, 0, 0, 0, 0, 0, 0, 0, 0, 0, 0],
                    pointer = 0, length_b = 3, capacity = 16\<rparr>,
         unread := 3, encoding := YAML_UTF8_ENCODING, offset := 3\<rparr>) \<and>
   yaml_parser_update_raw_buffer byte_reader ((new_parser 16 16 [0x82, 0xAC])
       \<lparr>raw_input := \<lparr>buffer = [0x41, 0x42, 0x43, 0xE2, 0, 0, 0, 0, 0, 0, 0, 0, 0, 0, 0, 0],
                        pointer = 3, length_b = 4, capacity = 16\<rparr>,
         input := \<lparr>buffer = [0x41, 0x42, 0x43, 0, 0, 0, 0, 0, 0, 0, 0, 0, 0, 0, 0, 0],
                    pointer = 0, length_b = 3, capacity = 16\<rparr>,
         unread := 3, encoding := YAML_UTF8_ENCODING, offset := 3\<rparr>) =
     (True, (new_parser 16 16 [0xAC])
       \<lparr>raw_input := \<lparr>buffer = [0xE2, 0x42, 0x43, 0xE2, 0x82, 0, 0, 0, 0, 0, 0, 0, 0, 0, 0, 0],
                        pointer = 0, length_b = 5, capacity = 16\<rparr>,
         input := \<lparr>buffer = [0x41, 0x42, 0x43, 0, 0, 0, 0, 0, 0, 0, 0, 0, 0, 0, 0, 0],
                    pointer = 0, length_b = 3, capacity = 16\<rparr>,
         unread := 3, encoding := YAML_UTF8_ENCODING, offset := 3\<rparr>) \<and>
   yaml_parser_update_buffer byte_reader
       (new_parser 16 16 [0x41, 0x42, 0x43, 0xE2, 0x82, 0xAC]) 4 =
     Some (False, (new_parser 16 16 [0xAC])
       \<lparr>raw_input := \<lparr>buffer = [0xE2, 0x42, 0x43, 0xE2, 0x82, 0, 0, 0, 0, 0, 0, 0, 0, 0, 0, 0],
                        pointer = 0, length_b = 5, capacity = 16\<rparr>,
         input := \<lparr>buffer = [0x41, 0x42, 0x43, 0, 0, 0, 0, 0, 0, 0, 0, 0, 0, 0, 0, 0],
                    pointer = 0, length_b = 3, capacity = 16\<rparr>,
         unread := 3, encoding := YAML_UTF8_ENCODING, offset := 3,
         error := YAML_DECODER_ERROR, problem := ''Invalid trailing UTF-8 octet'',
         problem_offset := 4, problem_value := 0x42\<rparr>) \<and>
   yaml_parser_update_buffer string_reader
       (new_parser 16 16 [0x41, 0x42, 0x43, 0xE2, 0x82, 0xAC]) 4 =
     Some (True, (new_parser 16 16 [])
       \<lparr>is_eof := True,
         raw_input := \<lparr>buffer = [0x41, 0x42, 0x43, 0xE2, 0x82, 0xAC, 0, 0, 0, 0, 0, 0, 0, 0, 0, 0],
                        pointer = 6, length_b = 6, capacity = 16\<rparr>,
         input := \<lparr>buffer = [0x41, 0x42, 0x43, 0xE2, 0x82, 0xAC, 0, 0, 0, 0, 0, 0, 0, 0, 0, 0],
                    pointer = 0, length_b = 7, capacity = 16\<rparr>,
         unread := 5, encoding := YAML_UTF8_ENCODING, offset := 6\<rparr>)"
  by code_simp

section \<open>The detection of the encoding\<close>

lemma update_raw_buffer_keeps:
  assumes "yaml_parser_update_raw_buffer rd p = (ok, p1)"
  shows "offset p1 = offset p" "encoding p1 = encoding p" "input p1 = input p"
    "unread p1 = unread p" "pointer (raw_input p) = 0 \<Longrightarrow> pointer (raw_input p1) = 0"
  using assms
  by (auto simp: yaml_parser_update_raw_buffer_def READER_ERROR_INIT_def Let_def
      split: if_splits option.splits prod.splits)

lemma fill_raw_buffer_keeps:
  assumes "fill_raw_buffer rd p = Some y"
  shows "offset (snd y) = offset p \<and> encoding (snd y) = encoding p \<and> input (snd y) = input p \<and>
         unread (snd y) = unread p \<and>
         (pointer (raw_input p) = 0 \<longrightarrow> pointer (raw_input (snd y)) = 0)"
proof (rule fill_raw_buffer.raw_induct
    [where P = "\<lambda>rd p y. offset (snd y) = offset p \<and> encoding (snd y) = encoding p \<and>
         input (snd y) = input p \<and> unread (snd y) = unread p \<and>
         (pointer (raw_input p) = 0 \<longrightarrow> pointer (raw_input (snd y)) = 0)", OF _ assms])
  fix f and rd :: "'a yaml_read_handler" and p y
  assume IH: "\<And>rd p y. f rd p = Some y \<Longrightarrow>
      offset (snd y) = offset p \<and> encoding (snd y) = encoding p \<and>
      input (snd y) = input p \<and> unread (snd y) = unread p \<and>
      (pointer (raw_input p) = 0 \<longrightarrow> pointer (raw_input (snd y)) = 0)"
    and body: "(if \<not> is_eof p \<and> length_b (raw_input p) < 3
      then case yaml_parser_update_raw_buffer rd p of
           (ok, p1) \<Rightarrow> if \<not> ok then Some (False, p1) else f rd p1
      else Some (True, p)) = Some y"
  show "offset (snd y) = offset p \<and> encoding (snd y) = encoding p \<and>
      input (snd y) = input p \<and> unread (snd y) = unread p \<and>
      (pointer (raw_input p) = 0 \<longrightarrow> pointer (raw_input (snd y)) = 0)"
  proof (cases "\<not> is_eof p \<and> length_b (raw_input p) < 3")
    case False
    with body show ?thesis by auto
  next
    case True
    obtain ok p1 where u: "yaml_parser_update_raw_buffer rd p = (ok, p1)"
      by (cases "yaml_parser_update_raw_buffer rd p")
    show ?thesis
    proof (cases ok)
      case False
      with body True u have "y = (False, p1)" by simp
      with update_raw_buffer_keeps [OF u] show ?thesis by simp
    next
      case ok: True
      with body True u have "f rd p1 = Some y" by simp
      from IH [OF this] update_raw_buffer_keeps [OF u] show ?thesis by simp
    qed
  qed
qed

lemma has_bom_contents:
  "has_bom r bom = (take (length bom) (contents r) = bom)"
proof (cases "length bom \<le> length_b r")
  case True
  then show ?thesis by (simp add: has_bom_def contents_def min_def)
next
  case False
  then have "length (take (length bom) (contents r)) < length bom"
    by (simp add: contents_def)
  then have "take (length bom) (contents r) \<noteq> bom" by auto
  with False show ?thesis by (simp add: has_bom_def)
qed

text \<open>
  The loop that fills the raw buffer returns whenever the buffer has a capacity of
  three bytes or more: a round either fails, or sets the EOF flag, or makes the length
  grow. It returns 1 unless the handler has failed.
\<close>

lemma update_raw_buffer_progress:
  assumes "yaml_parser_update_raw_buffer rd p = (True, p1)"
    and "\<not> is_eof p" and "length_b (raw_input p) < capacity (raw_input p)"
  shows "capacity (raw_input p1) = capacity (raw_input p) \<and>
         (is_eof p1 \<or> length_b (raw_input p) < length_b (raw_input p1))"
  using assms
  by (auto simp: yaml_parser_update_raw_buffer_def Let_def
      split: if_splits option.splits prod.splits)

lemma update_raw_buffer_ok:
  assumes "yaml_parser_update_raw_buffer rd p = (ok, p1)" and "\<forall>d n. rd d n \<noteq> None"
  shows "ok"
proof -
  have "rd (reader_data p) n \<noteq> None" for n
    using assms(2) by blast
  then obtain bs d where "rd (reader_data p) (capacity (raw_input p) - length_b (raw_input p)) = Some (bs, d)"
    by fastforce
  with assms(1) show ?thesis
    by (auto simp: yaml_parser_update_raw_buffer_def Let_def split: if_splits)
qed

lemma fill_raw_buffer_returns:
  "3 \<le> capacity (raw_input p) \<Longrightarrow> \<exists>y. fill_raw_buffer rd p = Some y"
proof (induction "3 - length_b (raw_input p)" arbitrary: p rule: less_induct)
  case less
  show ?case
  proof (cases "\<not> is_eof p \<and> length_b (raw_input p) < 3")
    case False
    then show ?thesis by (auto simp: fill_raw_buffer.simps [of rd p])
  next
    case True
    obtain ok p1 where u: "yaml_parser_update_raw_buffer rd p = (ok, p1)"
      by (cases "yaml_parser_update_raw_buffer rd p")
    show ?thesis
    proof (cases ok)
      case False
      with True u show ?thesis by (auto simp: fill_raw_buffer.simps [of rd p])
    next
      case ok: True
      from True less.prems have "length_b (raw_input p) < capacity (raw_input p)" by simp
      moreover from u ok have "yaml_parser_update_raw_buffer rd p = (True, p1)" by simp
      ultimately have "capacity (raw_input p1) = capacity (raw_input p) \<and>
          (is_eof p1 \<or> length_b (raw_input p) < length_b (raw_input p1))"
        using True by (intro update_raw_buffer_progress) simp_all
      then
      have c: "capacity (raw_input p1) = capacity (raw_input p)"
        and pr: "is_eof p1 \<or> length_b (raw_input p) < length_b (raw_input p1)"
        by simp_all
      have "\<exists>y. fill_raw_buffer rd p1 = Some y"
      proof (cases "is_eof p1")
        case True
        then show ?thesis by (auto simp: fill_raw_buffer.simps [of rd p1])
      next
        case False
        with pr True have "3 - length_b (raw_input p1) < 3 - length_b (raw_input p)" by arith
        from less.hyps [OF this] c less.prems show ?thesis by simp
      qed
      with True u ok show ?thesis by (auto simp: fill_raw_buffer.simps [of rd p])
    qed
  qed
qed

lemma fill_raw_buffer_ok:
  assumes "fill_raw_buffer rd p = Some y"
  shows "(\<forall>d n. rd d n \<noteq> None) \<longrightarrow> fst y"
proof (rule fill_raw_buffer.raw_induct
    [where P = "\<lambda>rd p y. (\<forall>d n. rd d n \<noteq> None) \<longrightarrow> fst y", OF _ assms])
  fix f and rd :: "'a yaml_read_handler" and p y
  assume IH: "\<And>rd p y. f rd p = Some y \<Longrightarrow> (\<forall>d n. rd d n \<noteq> None) \<longrightarrow> fst y"
    and body: "(if \<not> is_eof p \<and> length_b (raw_input p) < 3
      then case yaml_parser_update_raw_buffer rd p of
           (ok, p1) \<Rightarrow> if \<not> ok then Some (False, p1) else f rd p1
      else Some (True, p)) = Some y"
  show "(\<forall>d n. rd d n \<noteq> None) \<longrightarrow> fst y"
  proof (cases "\<not> is_eof p \<and> length_b (raw_input p) < 3")
    case False
    with body show ?thesis by auto
  next
    case True
    obtain ok p1 where u: "yaml_parser_update_raw_buffer rd p = (ok, p1)"
      by (cases "yaml_parser_update_raw_buffer rd p")
    show ?thesis
    proof
      assume r: "\<forall>d n. rd d n \<noteq> None"
      from update_raw_buffer_ok [OF u r] have ok by simp
      with body True u have "f rd p1 = Some y" by simp
      from IH [OF this] r show "fst y" by simp
    qed
  qed
qed

text \<open>
  C5. On a parser that has read nothing yet (raw pointer 0, offset 0): with a raw
  buffer of three bytes or more the detection of the encoding returns, and it returns
  1 when the handler never fails. Whenever it returns 1: if the bytes in the raw
  buffer start with \<open>FF FE\<close>, the encoding is UTF-16LE, the raw pointer is 2 and the
  offset is 2; else if they start with \<open>FE FF\<close>, the encoding is UTF-16BE, with the
  same pointer and offset; else if they start with \<open>EF BB BF\<close>, the encoding is UTF-8,
  the pointer is 3 and the offset is 3; else the encoding is UTF-8, and the pointer
  and the offset are 0. The encoding is known afterwards, so that the detection does
  not run a second time.
\<close>

theorem encoding_detection:
  assumes "pointer (raw_input p) = 0" and "offset p = 0"
  shows "(3 \<le> capacity (raw_input p) \<longrightarrow>
            (\<exists>ok p'. yaml_parser_determine_encoding rd p = Some (ok, p') \<and>
               ((\<forall>d n. rd d n \<noteq> None) \<longrightarrow> ok))) \<and>
         (\<forall>p'. yaml_parser_determine_encoding rd p = Some (True, p') \<longrightarrow>
            (if take 2 (contents (raw_input p')) = [0xFF, 0xFE]
             then encoding p' = YAML_UTF16LE_ENCODING \<and> pointer (raw_input p') = 2 \<and> offset p' = 2
             else if take 2 (contents (raw_input p')) = [0xFE, 0xFF]
             then encoding p' = YAML_UTF16BE_ENCODING \<and> pointer (raw_input p') = 2 \<and> offset p' = 2
             else if take 3 (contents (raw_input p')) = [0xEF, 0xBB, 0xBF]
             then encoding p' = YAML_UTF8_ENCODING \<and> pointer (raw_input p') = 3 \<and> offset p' = 3
             else encoding p' = YAML_UTF8_ENCODING \<and> pointer (raw_input p') = 0 \<and> offset p' = 0) \<and>
            encoding p' \<noteq> YAML_ANY_ENCODING)"
proof -
  have A: "\<exists>ok p'. yaml_parser_determine_encoding rd p = Some (ok, p') \<and>
      ((\<forall>d n. rd d n \<noteq> None) \<longrightarrow> ok)" if c: "3 \<le> capacity (raw_input p)"
  proof -
  from fill_raw_buffer_returns [OF c] obtain ok q where f: "fill_raw_buffer rd p = Some (ok, q)"
    by fastforce
  from fill_raw_buffer_ok [OF f] have o: "(\<forall>d n. rd d n \<noteq> None) \<longrightarrow> ok" by simp
  have "yaml_parser_determine_encoding rd p =
      Some (ok, if ok then select_encoding q else q)"
    by (simp add: yaml_parser_determine_encoding_def f)
  with o show ?thesis
    by blast
  qed
  have B: "(if take 2 (contents (raw_input p')) = [0xFF, 0xFE]
             then encoding p' = YAML_UTF16LE_ENCODING \<and> pointer (raw_input p') = 2 \<and> offset p' = 2
             else if take 2 (contents (raw_input p')) = [0xFE, 0xFF]
             then encoding p' = YAML_UTF16BE_ENCODING \<and> pointer (raw_input p') = 2 \<and> offset p' = 2
             else if take 3 (contents (raw_input p')) = [0xEF, 0xBB, 0xBF]
             then encoding p' = YAML_UTF8_ENCODING \<and> pointer (raw_input p') = 3 \<and> offset p' = 3
             else encoding p' = YAML_UTF8_ENCODING \<and> pointer (raw_input p') = 0 \<and> offset p' = 0) \<and>
            encoding p' \<noteq> YAML_ANY_ENCODING"
    if d: "yaml_parser_determine_encoding rd p = Some (True, p')" for p'
  proof -
  from d obtain p1 where f: "fill_raw_buffer rd p = Some (True, p1)"
    and p': "p' = select_encoding p1"
    by (auto simp: yaml_parser_determine_encoding_def split: option.splits prod.splits if_splits)
  from fill_raw_buffer_keeps [OF f] assms
  have k: "pointer (raw_input p1) = 0" "offset p1 = 0" by simp_all
  have c: "contents (raw_input p') = contents (raw_input p1)"
    by (simp add: p' select_encoding_def contents_def)
  have l: "length BOM_UTF16LE = 2" "length BOM_UTF16BE = 2" "length BOM_UTF8 = 3"
    by (simp_all add: BOM_UTF16LE_def BOM_UTF16BE_def BOM_UTF8_def)
  have b: "has_bom (raw_input p1) BOM_UTF16LE = (take 2 (contents (raw_input p1)) = [0xFF, 0xFE])"
    "has_bom (raw_input p1) BOM_UTF16BE = (take 2 (contents (raw_input p1)) = [0xFE, 0xFF])"
    "has_bom (raw_input p1) BOM_UTF8 = (take 3 (contents (raw_input p1)) = [0xEF, 0xBB, 0xBF])"
    unfolding has_bom_contents l by (simp_all add: BOM_UTF16LE_def BOM_UTF16BE_def BOM_UTF8_def)
  show ?thesis
    unfolding c by (simp add: p' select_encoding_def b k)
  qed
  from A B show ?thesis by blast
qed

theorem encoding_detection_witness:
  "pointer (raw_input (new_parser 8 8 [0xFF, 0xFE :: octet])) = 0 \<and>
   offset (new_parser 8 8 [0xFF, 0xFE :: octet]) = 0 \<and>
   3 \<le> capacity (raw_input (new_parser 8 8 [0xFF, 0xFE :: octet])) \<and>
   (\<forall>d n. string_reader d n \<noteq> None) \<and>
   yaml_parser_determine_encoding string_reader (new_parser 8 8 [0xFF, 0xFE]) =
     Some (True, (new_parser 8 8 [])
       \<lparr>is_eof := True,
         raw_input := \<lparr>buffer = [0xFF, 0xFE, 0, 0, 0, 0, 0, 0], pointer = 2, length_b = 2,
                        capacity = 8\<rparr>,
         encoding := YAML_UTF16LE_ENCODING, offset := 2\<rparr>) \<and>
   (\<exists>p'. yaml_parser_determine_encoding string_reader (new_parser 8 8 [0xFF, 0xFE]) =
            Some (True, p') \<and>
         encoding p' = YAML_UTF16LE_ENCODING \<and> pointer (raw_input p') = 2 \<and> offset p' = 2)"
proof -
  let ?p = "new_parser 8 8 [0xFF, 0xFE :: octet]"
  let ?p' = "(new_parser 8 8 ([] :: octet list))
       \<lparr>is_eof := True,
         raw_input := \<lparr>buffer = [0xFF, 0xFE, 0, 0, 0, 0, 0, 0], pointer = 2, length_b = 2,
                        capacity = 8\<rparr>,
         encoding := YAML_UTF16LE_ENCODING, offset := 2\<rparr>"
  have z: "pointer (raw_input ?p) = 0" "offset ?p = 0"
    by (simp_all add: new_parser_def)
  have c: "3 \<le> capacity (raw_input ?p)" by (simp add: new_parser_def)
  have r: "\<forall>d n. string_reader d n \<noteq> None" by (simp add: string_reader_def)
  have h: "yaml_parser_determine_encoding string_reader ?p = Some (True, ?p')"
    by code_simp
  have t: "take 2 (contents (raw_input ?p')) = [0xFF, 0xFE]"
    by (simp add: contents_def)
  from encoding_detection [OF z, of string_reader] c r
  obtain ok q where q: "yaml_parser_determine_encoding string_reader ?p = Some (ok, q)" "ok"
    by blast
  from encoding_detection [OF z, of string_reader] h t
  have "encoding ?p' = YAML_UTF16LE_ENCODING \<and> pointer (raw_input ?p') = 2 \<and> offset ?p' = 2"
    by simp
  with h have "\<exists>p'. yaml_parser_determine_encoding string_reader ?p = Some (True, p') \<and>
      encoding p' = YAML_UTF16LE_ENCODING \<and> pointer (raw_input p') = 2 \<and> offset p' = 2"
    by blast
  with z c r h show ?thesis by blast
qed

section \<open>The NUL character at the end of the stream\<close>

lemma unat_ucast_down:
  fixes w :: "32 word"
  assumes "unat w < 256"
  shows "unat (ucast w :: 8 word) = unat w"
proof -
  have "unat (ucast w :: 8 word) = take_bit 8 (unat w)"
    by (simp add: unsigned_ucast_eq)
  also have "\<dots> = unat w"
    by (rule take_bit_nat_eq_self) (use assms in simp)
  finally show ?thesis .
qed

lemma octet_sum_nonzero:
  fixes b y :: "32 word"
  assumes "0 < unat b" and "unat b + unat y < 256"
  shows "(ucast (b + y) :: 8 word) \<noteq> 0"
proof -
  from assms(2) have "unat b + unat y < 2 ^ LENGTH(32)" by simp
  then have s: "unat (b + y) = unat b + unat y"
    by (simp only: unat_add_lem)
  with assms(2) have "unat (ucast (b + y) :: 8 word) = unat b + unat y"
    by (simp add: unat_ucast_down)
  with assms(1) have "unat (ucast (b + y) :: 8 word) \<noteq> 0" by simp
  then show ?thesis by (simp only: unat_0_iff not_False_eq_True)
qed

lemma unat_and_3F: "unat (x AND (0x3F :: 32 word)) \<le> 63"
  using word_and_le1 [of x "0x3F"] by (simp add: word_le_nat_alt)

lemma trail_nonzero: "(ucast (0x80 + (x AND 0x3F) :: 32 word) :: 8 word) \<noteq> 0"
  by (rule octet_sum_nonzero) (use unat_and_3F [of x] in simp_all)

lemma unat_drop_bit_le:
  fixes v :: "32 word"
  assumes "unat v < k * 2 ^ n"
  shows "unat (drop_bit n v) < k"
  using assms by (simp only: unat_drop_bit_eq) (simp add: drop_bit_eq_div less_mult_imp_div_less)

lemma utf8_octets_nonzero:
  assumes "allowed v"
  shows "0 \<notin> set (utf8_octets v)"
proof -
  consider "v \<le> 0x7F" | "\<not> v \<le> 0x7F" "v \<le> 0x7FF"
    | "\<not> v \<le> 0x7F" "\<not> v \<le> 0x7FF" "v \<le> 0xFFFF"
    | "\<not> v \<le> 0x7F" "\<not> v \<le> 0x7FF" "\<not> v \<le> 0xFFFF" by blast
  then show ?thesis
  proof cases
    case 1
    from assms have "v \<noteq> 0" by (auto simp: allowed_def)
    then have "unat v \<noteq> 0" by (simp only: unat_0_iff not_False_eq_True)
    moreover from 1 have "unat v < 256" by (simp add: word_le_nat_alt)
    ultimately have "unat (ucast v :: 8 word) \<noteq> 0" by (simp add: unat_ucast_down)
    then have "(ucast v :: 8 word) \<noteq> 0" by (simp only: unat_0_iff not_False_eq_True)
    with 1 show ?thesis by (simp add: utf8_octets_code)
  next
    case 2
    from 2(2) have "unat v < 32 * 2 ^ 6" by (simp add: word_le_nat_alt)
    then have "unat (drop_bit 6 v) < 32" by (rule unat_drop_bit_le)
    then have "(ucast (0xC0 + drop_bit 6 v) :: 8 word) \<noteq> 0"
      by (intro octet_sum_nonzero) simp_all
    with 2 show ?thesis by (simp add: utf8_octets_code trail_nonzero [symmetric])
  next
    case 3
    from 3(3) have "unat v < 16 * 2 ^ 12" by (simp add: word_le_nat_alt)
    then have "unat (drop_bit 12 v) < 16" by (rule unat_drop_bit_le)
    then have "(ucast (0xE0 + drop_bit 12 v) :: 8 word) \<noteq> 0"
      by (intro octet_sum_nonzero) simp_all
    with 3 show ?thesis by (simp add: utf8_octets_code trail_nonzero [symmetric])
  next
    case 4
    from assms 4 have "unat v < 5 * 2 ^ 18" by (auto simp: allowed_def word_le_nat_alt)
    then have "unat (drop_bit 18 v) < 5" by (rule unat_drop_bit_le)
    then have "(ucast (0xF0 + drop_bit 18 v) :: 8 word) \<noteq> 0"
      by (intro octet_sum_nonzero) simp_all
    with 4 show ?thesis by (simp add: utf8_octets_code trail_nonzero [symmetric])
  qed
qed

lemma decode_step_Break:
  "decode_step p = (Break, p') \<Longrightarrow> p' = p \<and> \<not> is_eof p"
  by (auto simp: decode_step_def decode_char_def decode_utf8_def decode_utf16_def Let_def
      split: decode_outcome.splits if_splits yaml_encoding.splits sum.splits prod.splits)

lemma decode_step_Return0:
  "decode_step p = (Return0, p') \<Longrightarrow>
   is_eof p' = is_eof p \<and> input p' = input p \<and> raw_input p' = raw_input p \<and>
   reader_data p' = reader_data p"
  by (auto simp: decode_step_def DECODER_ERROR_INIT_def split: decode_outcome.splits if_splits)

lemma appended_refl: "appended p p"
  by (simp add: appended_def)

lemma appended_step:
  assumes "decode_step p = (Next, p1)" and "appended p1 p'"
  shows "appended p p'"
proof -
  from decode_step_Next [OF assms(1)] obtain v w where v: "allowed v"
    and p1: "p1 = p\<lparr>raw_input := (raw_input p)\<lparr>pointer := pointer (raw_input p) + w\<rparr>,
            offset := offset p + w, input := put_char v (input p), unread := unread p + 1\<rparr>"
    by blast
  have f: "is_eof p1 = is_eof p" "pointer (input p1) = pointer (input p)"
    "length (buffer (input p1)) = length (buffer (input p))"
    "length_b (input p1) = length_b (input p) + length (utf8_octets v)"
    by (simp_all add: p1 put_char_fields)
  have "\<exists>bs. 0 \<notin> set bs \<and> contents (input p') = contents (input p) @ bs"
    if room: "length_b (input p') \<le> length (buffer (input p'))"
  proof -
    from assms(2) room obtain bs where bs: "0 \<notin> set bs"
      "contents (input p') = contents (input p1) @ bs"
      by (auto simp: appended_def)
    from assms(2) room f
    have "length_b (input p) + length (utf8_octets v) \<le> length (buffer (input p))"
      by (simp add: appended_def)
    from put_char_contents [OF this]
    have "contents (input p1) = contents (input p) @ utf8_octets v"
      by (simp add: p1)
    with bs utf8_octets_nonzero [OF v]
    have "0 \<notin> set (utf8_octets v @ bs) \<and>
        contents (input p') = contents (input p) @ (utf8_octets v @ bs)"
      by simp
    then show ?thesis by blast
  qed
  with assms(2) f show ?thesis
    by (simp add: appended_def)
qed

lemma decode_all_appended:
  "decode_all p = (ok, p') \<Longrightarrow>
   appended p p' \<and> (ok \<and> is_eof p' \<longrightarrow> pointer (raw_input p') = length_b (raw_input p'))"
proof (induction p arbitrary: ok p' rule: decode_all.induct)
  case (1 p)
  show ?case
  proof (cases "pointer (raw_input p) \<noteq> length_b (raw_input p)")
    case False
    with 1(2) have "ok" "p' = p" by (simp_all add: decode_all.simps [of p])
    with False show ?thesis by (simp add: appended_refl)
  next
    case True
    obtain x p1 where s: "decode_step p = (x, p1)" by (cases "decode_step p")
    show ?thesis
    proof (cases x)
      case Next
      with 1(2) True s have d: "decode_all p1 = (ok, p')"
        by (simp add: decode_all.simps [of p])
      from 1(1) [OF True s [symmetric] Next d] s Next show ?thesis
        by (auto intro: appended_step)
    next
      case Break
      with 1(2) True s have "ok" "p' = p1" by (simp_all add: decode_all.simps [of p])
      moreover from s Break have "p1 = p" "\<not> is_eof p"
        using decode_step_Break [of p p1] by simp_all
      ultimately show ?thesis
        by (simp add: appended_refl)
    next
      case Return0
      with 1(2) True s have "\<not> ok" "p' = p1" by (simp_all add: decode_all.simps [of p])
      with decode_step_Return0 [of p p1] s Return0 show ?thesis
        by (simp add: appended_def)
    qed
  qed
qed

lemma update_raw_buffer_input:
  "yaml_parser_update_raw_buffer rd p = (ok, p1) \<Longrightarrow> input p1 = input p \<and> unread p1 = unread p"
  by (simp add: update_raw_buffer_keeps)

lemma put_nul_contents:
  "length_b (input p) < length (buffer (input p)) \<Longrightarrow>
   contents (input (put_nul p)) = contents (input p) @ [0]"
  by (simp add: put_nul_def put_octet_contents)

lemma filled_round:
  assumes u: "yaml_parser_update_raw_buffer rd p = (True, p1)"
    and d: "decode_all p1 = (True, p2)"
    and r: "if is_eof p2 then p' = put_nul p2 else filled p2 p'"
  shows "filled p p'"
proof -
  from update_raw_buffer_input [OF u] have i: "input p1 = input p" by simp
  from decode_all_appended [OF d] have a: "appended p1 p2"
    and e: "is_eof p2 \<longrightarrow> pointer (raw_input p2) = length_b (raw_input p2)"
    by simp_all
  show ?thesis
  proof (cases "is_eof p2")
    case True
    with r have p': "p' = put_nul p2" by simp
    have "\<exists>bs. 0 \<notin> set bs \<and> contents (input p') = contents (input p) @ bs @ [0]"
      if "length_b (input p') \<le> length (buffer (input p'))"
    proof -
      from that have l: "length_b (input p2) < length (buffer (input p2))"
        by (simp add: p' put_nul_def)
      with a obtain bs where "0 \<notin> set bs" "contents (input p2) = contents (input p1) @ bs"
        by (auto simp: appended_def)
      with put_nul_contents [OF l] i show ?thesis by (auto simp: p')
    qed
    with a e True i show ?thesis
      by (simp add: filled_def appended_def p' put_nul_def)
  next
    case False
    with r have f: "filled p2 p'" by simp
    have "\<exists>bs. 0 \<notin> set bs \<and>
        contents (input p') = contents (input p) @ bs @ (if is_eof p' then [0] else [])"
      if room: "length_b (input p') \<le> length (buffer (input p'))"
    proof -
      from f room obtain bs2 where bs2: "0 \<notin> set bs2"
        "contents (input p') = contents (input p2) @ bs2 @ (if is_eof p' then [0] else [])"
        by (auto simp: filled_def)
      from f room have "length_b (input p2) \<le> length (buffer (input p2))"
        by (simp add: filled_def)
      with a obtain bs1 where bs1: "0 \<notin> set bs1"
        "contents (input p2) = contents (input p1) @ bs1"
        by (auto simp: appended_def)
      from bs1 bs2 i have "0 \<notin> set (bs1 @ bs2) \<and>
        contents (input p') = contents (input p) @ (bs1 @ bs2) @ (if is_eof p' then [0] else [])"
        by simp
      then show ?thesis by blast
    qed
    with a f i show ?thesis
      by (simp add: filled_def appended_def)
  qed
qed

lemma fill_buffer_filled:
  assumes "fill_buffer rd n p = Some y"
  shows "fst y \<longrightarrow> unread p < n \<or> \<not> is_eof p \<longrightarrow> filled p (snd y)"
proof (rule fill_buffer.raw_induct
    [where P = "\<lambda>rd n p y. fst y \<longrightarrow> unread p < n \<or> \<not> is_eof p \<longrightarrow> filled p (snd y)",
      OF _ assms])
  fix f and rd :: "'a yaml_read_handler" and n p y
  assume IH: "\<And>rd n p y. f rd n p = Some y \<Longrightarrow>
      fst y \<longrightarrow> unread p < n \<or> \<not> is_eof p \<longrightarrow> filled p (snd y)"
    and body: "(if unread p < n
      then case yaml_parser_update_raw_buffer rd p of
           (ok, p1) \<Rightarrow>
             if \<not> ok then Some (False, p1)
             else case decode_all p1 of
                  (ok2, p2) \<Rightarrow>
                    if \<not> ok2 then Some (False, p2)
                    else if is_eof p2 then Some (True, put_nul p2)
                         else f rd n p2
      else Some (True, p)) = Some y"
  show "fst y \<longrightarrow> unread p < n \<or> \<not> is_eof p \<longrightarrow> filled p (snd y)"
  proof (cases "unread p < n")
    case False
    with body have "y = (True, p)" by simp
    with False show ?thesis by (simp add: filled_def)
  next
    case True
    obtain ok p1 where u: "yaml_parser_update_raw_buffer rd p = (ok, p1)"
      by (cases "yaml_parser_update_raw_buffer rd p")
    obtain ok2 p2 where d: "decode_all p1 = (ok2, p2)"
      by (cases "decode_all p1")
    show ?thesis
    proof (intro impI)
      assume y: "fst y"
      from y body True u have ok: "ok" by (cases ok) auto
      from y body True u d ok have ok2: "ok2" by (cases ok2) auto
      have "if is_eof p2 then snd y = put_nul p2 else filled p2 (snd y)"
      proof (cases "is_eof p2")
        case True
        with body \<open>unread p < n\<close> u d ok ok2 show ?thesis by auto
      next
        case False
        with body \<open>unread p < n\<close> u d ok ok2 have "f rd n p2 = Some y" by simp
        from IH [OF this] y False show ?thesis by simp
      qed
      with u d ok ok2 show "filled p (snd y)"
        by (auto intro: filled_round)
    qed
  qed
qed

lemma compact_input_contents:
  assumes "pointer b \<le> length_b b" and "length_b b \<le> length (buffer b)"
  shows "contents (compact_input b) = unread_text b"
    and "pointer (compact_input b) = 0"
    and "length (buffer (compact_input b)) = length (buffer b)"
proof -
  consider "0 < pointer b" "pointer b < length_b b" | "pointer b = length_b b"
    | "pointer b = 0" "pointer b \<noteq> length_b b"
    using assms(1) by linarith
  then have "contents (compact_input b) = unread_text b \<and> pointer (compact_input b) = 0 \<and>
      length (buffer (compact_input b)) = length (buffer b)"
  proof cases
    case 1
    with assms show ?thesis
      by (simp add: compact_input_def contents_def unread_text_def memmove_def drop_take)
  next
    case 2
    with assms show ?thesis
      by (simp add: compact_input_def contents_def unread_text_def)
  next
    case 3
    with assms show ?thesis
      by (simp add: compact_input_def contents_def unread_text_def)
  qed
  then show "contents (compact_input b) = unread_text b"
    and "pointer (compact_input b) = 0"
    and "length (buffer (compact_input b)) = length (buffer b)"
    by simp_all
qed

lemma determine_encoding_input:
  assumes "yaml_parser_determine_encoding rd p = Some (ok, p1)"
  shows "input p1 = input p \<and> unread p1 = unread p"
proof -
  from assms obtain q where f: "fill_raw_buffer rd p = Some (ok, q)"
    and p1: "p1 = q \<or> p1 = select_encoding q"
    by (auto simp: yaml_parser_determine_encoding_def split: option.splits prod.splits if_splits)
  from fill_raw_buffer_keeps [OF f] have "input q = input p \<and> unread q = unread p" by simp
  with p1 show ?thesis by (auto simp: select_encoding_def)
qed

text \<open>
  C8. Take a call that returns 1, on a parser that has its EOF flag set only with the
  raw buffer empty (as it is before the first call and after every call that returns
  1). If the EOF flag was set, the call changes nothing. After the call the EOF flag
  is set only with the raw buffer empty (pointer equal to length). Where the buffer of
  decoded characters is well formed and its array has room for what the call appends,
  its unread part is the one before the call, followed by octets that are not 0,
  followed by one 0 octet exactly when this call has set the EOF flag. Once the flag
  is set, every later call, for any number of characters, returns 1 at once and
  leaves the parser as it is.
\<close>

theorem sentinel_appended_once:
  assumes call: "yaml_parser_update_buffer rd p n = Some (True, p')"
    and inv: "is_eof p \<longrightarrow> pointer (raw_input p) = length_b (raw_input p)"
  shows "(is_eof p \<longrightarrow> p' = p) \<and>
         (is_eof p' \<longrightarrow> pointer (raw_input p') = length_b (raw_input p')) \<and>
         (pointer (input p) \<le> length_b (input p) \<and>
          length_b (input p) \<le> length (buffer (input p)) \<and>
          length_b (input p') \<le> length (buffer (input p')) \<longrightarrow>
            (\<exists>bs. 0 \<notin> set bs \<and>
               unread_text (input p') =
                 unread_text (input p) @ bs @ (if is_eof p' \<and> \<not> is_eof p then [0] else []))) \<and>
         (\<forall>rd' m. is_eof p' \<longrightarrow> yaml_parser_update_buffer rd' p' m = Some (True, p'))"
proof -
  have same: ?thesis if "p' = p"
  proof -
    have "0 \<notin> set ([] :: octet list) \<and> unread_text (input p) = unread_text (input p) @ [] @ []"
      by simp
    then have "\<exists>bs. 0 \<notin> set bs \<and> unread_text (input p) = unread_text (input p) @ bs @ []"
      by blast
    with inv that show ?thesis
      by (simp add: yaml_parser_update_buffer_def)
  qed
  show ?thesis
  proof (cases "is_eof p \<or> n \<le> unread p")
    case True
    with call inv have "p' = p"
      by (auto simp: yaml_parser_update_buffer_def split: if_splits)
    then show ?thesis by (rule same)
  next
    case False
    then have ne: "\<not> is_eof p" and un: "unread p < n" by simp_all
    obtain p1 where p1: "input p1 = input p" "unread p1 = unread p"
      and f: "fill_buffer rd n (p1\<lparr>input := compact_input (input p1)\<rparr>) = Some (True, p')"
    proof (cases "encoding p = YAML_ANY_ENCODING")
      case True
      with call ne un obtain ok q where d: "yaml_parser_determine_encoding rd p = Some (ok, q)"
        by (auto simp: yaml_parser_update_buffer_def split: option.splits)
      with call ne un True have "ok"
        and "fill_buffer rd n (q\<lparr>input := compact_input (input q)\<rparr>) = Some (True, p')"
        by (auto simp: yaml_parser_update_buffer_def split: if_splits)
      with determine_encoding_input [OF d] that show ?thesis by blast
    next
      case False
      with call ne un
      have "fill_buffer rd n (p\<lparr>input := compact_input (input p)\<rparr>) = Some (True, p')"
        by (auto simp: yaml_parser_update_buffer_def)
      with that show ?thesis by blast
    qed
    let ?q = "p1\<lparr>input := compact_input (input p1)\<rparr>"
    from un p1 have "unread ?q < n" by simp
    with fill_buffer_filled [OF f] have fl: "filled ?q p'" by simp
    have "\<exists>bs. 0 \<notin> set bs \<and> unread_text (input p') =
        unread_text (input p) @ bs @ (if is_eof p' \<and> \<not> is_eof p then [0] else [])"
      if wf: "pointer (input p) \<le> length_b (input p)"
        "length_b (input p) \<le> length (buffer (input p))"
        and room: "length_b (input p') \<le> length (buffer (input p'))"
    proof -
      from compact_input_contents [OF wf] p1
      have c: "contents (input ?q) = unread_text (input p)" "pointer (input ?q) = 0"
        by simp_all
      from fl room obtain bs where bs: "0 \<notin> set bs"
        "contents (input p') = contents (input ?q) @ bs @ (if is_eof p' then [0] else [])"
        by (auto simp: filled_def)
      from fl c have "pointer (input p') = 0" by (simp add: filled_def)
      then have "unread_text (input p') = contents (input p')"
        by (simp add: unread_text_def)
      with bs c ne have "0 \<notin> set bs \<and> unread_text (input p') =
          unread_text (input p) @ bs @ (if is_eof p' \<and> \<not> is_eof p then [0] else [])"
        by simp
      then show ?thesis by blast
    qed
    moreover from fl have "is_eof p' \<longrightarrow> pointer (raw_input p') = length_b (raw_input p')"
      by (simp add: filled_def)
    ultimately show ?thesis using ne
      by (simp add: yaml_parser_update_buffer_def)
  qed
qed

theorem sentinel_appended_once_witness:
  "yaml_parser_update_buffer string_reader (new_parser 8 8 [0x41, 0x42]) 1 =
     Some (True, (new_parser 8 8 [])
       \<lparr>is_eof := True,
         raw_input := \<lparr>buffer = [0x41, 0x42, 0, 0, 0, 0, 0, 0], pointer = 2, length_b = 2,
                        capacity = 8\<rparr>,
         input := \<lparr>buffer = [0x41, 0x42, 0, 0, 0, 0, 0, 0], pointer = 0, length_b = 3,
                    capacity = 8\<rparr>,
         unread := 3, encoding := YAML_UTF8_ENCODING, offset := 2\<rparr>) \<and>
   unread_text (input ((new_parser 8 8 ([] :: octet list))
       \<lparr>is_eof := True,
         raw_input := \<lparr>buffer = [0x41, 0x42, 0, 0, 0, 0, 0, 0], pointer = 2, length_b = 2,
                        capacity = 8\<rparr>,
         input := \<lparr>buffer = [0x41, 0x42, 0, 0, 0, 0, 0, 0], pointer = 0, length_b = 3,
                    capacity = 8\<rparr>,
         unread := 3, encoding := YAML_UTF8_ENCODING, offset := 2\<rparr>)) = [0x41, 0x42, 0] \<and>
   yaml_parser_update_buffer string_reader ((new_parser 8 8 [])
       \<lparr>is_eof := True,
         raw_input := \<lparr>buffer = [0x41, 0x42, 0, 0, 0, 0, 0, 0], pointer = 2, length_b = 2,
                        capacity = 8\<rparr>,
         input := \<lparr>buffer = [0x41, 0x42, 0, 0, 0, 0, 0, 0], pointer = 0, length_b = 3,
                    capacity = 8\<rparr>,
         unread := 3, encoding := YAML_UTF8_ENCODING, offset := 2\<rparr>) 4 =
     Some (True, (new_parser 8 8 [])
       \<lparr>is_eof := True,
         raw_input := \<lparr>buffer = [0x41, 0x42, 0, 0, 0, 0, 0, 0], pointer = 2, length_b = 2,
                        capacity = 8\<rparr>,
         input := \<lparr>buffer = [0x41, 0x42, 0, 0, 0, 0, 0, 0], pointer = 0, length_b = 3,
                    capacity = 8\<rparr>,
         unread := 3, encoding := YAML_UTF8_ENCODING, offset := 2\<rparr>)"
proof -
  let ?p = "new_parser 8 8 [0x41, 0x42 :: octet]"
  let ?p' = "(new_parser 8 8 ([] :: octet list))
       \<lparr>is_eof := True,
         raw_input := \<lparr>buffer = [0x41, 0x42, 0, 0, 0, 0, 0, 0], pointer = 2, length_b = 2,
                        capacity = 8\<rparr>,
         input := \<lparr>buffer = [0x41, 0x42, 0, 0, 0, 0, 0, 0], pointer = 0, length_b = 3,
                    capacity = 8\<rparr>,
         unread := 3, encoding := YAML_UTF8_ENCODING, offset := 2\<rparr>"
  have call: "yaml_parser_update_buffer string_reader ?p 1 = Some (True, ?p')"
    by code_simp
  have inv: "is_eof ?p \<longrightarrow> pointer (raw_input ?p) = length_b (raw_input ?p)"
    by (simp add: new_parser_def)
  have wf: "pointer (input ?p) \<le> length_b (input ?p)"
    "length_b (input ?p) \<le> length (buffer (input ?p))"
    by (simp_all add: new_parser_def)
  have room: "length_b (input ?p') \<le> length (buffer (input ?p'))"
    by simp
  have e: "is_eof ?p'" "unread_text (input ?p) = []"
    by (simp_all add: new_parser_def unread_text_def contents_def)
  from sentinel_appended_once [OF call inv]
  have "\<forall>rd' m. is_eof ?p' \<longrightarrow> yaml_parser_update_buffer rd' ?p' m = Some (True, ?p')"
    by blast
  with e have "yaml_parser_update_buffer string_reader ?p' 4 = Some (True, ?p')"
    by blast
  moreover have "unread_text (input ?p') = [0x41, 0x42, 0]"
    by (simp add: unread_text_def contents_def)
  ultimately show ?thesis using call by simp
qed

section \<open>The raw buffer after an update\<close>

text \<open>
  An update that is not a no-op, with a handler that succeeds: the length grows by the
  number of bytes produced, whatever the pointer was.
\<close>

lemma update_raw_buffer_length:
  assumes "\<not> (pointer (raw_input p) = 0 \<and> length_b (raw_input p) = capacity (raw_input p))"
    and "\<not> is_eof p"
    and "rd (reader_data p) (capacity (raw_input p) - length_b (raw_input p)) = Some (bs, d)"
  shows "\<exists>p'. yaml_parser_update_raw_buffer rd p = (True, p') \<and>
           pointer (raw_input p') = 0 \<and>
           length_b (raw_input p') = length_b (raw_input p) + length bs"
  using assms by (auto simp: yaml_parser_update_raw_buffer_def Let_def)

text \<open>
  C1. The claim is that an update of the raw buffer leaves, from index 0 on, the
  bytes that were unread followed by the bytes that the handler has produced, with
  the length set to their number. The code moves the unread bytes to the front and
  sets the pointer to 0, but it leaves the length as it was. On the stream
  \<open>FF FE 41 00\<close> (the mark of UTF-16LE and the letter A), read in one piece: after the
  detection of the encoding the pointer is 2 and the length 4; the update, for which
  the handler has no more bytes, leaves the pointer 0, the length 4 and the bytes
  \<open>41 00 41 00\<close>, where the claim has the length 2 and the bytes \<open>41 00\<close>; the call
  for one character then decodes the letter twice before the NUL.
\<close>

theorem refill_keeps_consumed_bytes:
  "yaml_parser_determine_encoding string_reader (new_parser 8 8 [0xFF, 0xFE, 0x41, 0x00]) =
     Some (True, (new_parser 8 8 [])
       \<lparr>raw_input := \<lparr>buffer = [0xFF, 0xFE, 0x41, 0x00, 0, 0, 0, 0], pointer = 2, length_b = 4,
                        capacity = 8\<rparr>,
         encoding := YAML_UTF16LE_ENCODING, offset := 2\<rparr>) \<and>
   yaml_parser_update_raw_buffer string_reader ((new_parser 8 8 [])
       \<lparr>raw_input := \<lparr>buffer = [0xFF, 0xFE, 0x41, 0x00, 0, 0, 0, 0], pointer = 2, length_b = 4,
                        capacity = 8\<rparr>,
         encoding := YAML_UTF16LE_ENCODING, offset := 2\<rparr>) =
     (True, (new_parser 8 8 [])
       \<lparr>is_eof := True,
         raw_input := \<lparr>buffer = [0x41, 0x00, 0x41, 0x00, 0, 0, 0, 0], pointer = 0, length_b = 4,
                        capacity = 8\<rparr>,
         encoding := YAML_UTF16LE_ENCODING, offset := 2\<rparr>) \<and>
   yaml_parser_update_buffer string_reader (new_parser 8 8 [0xFF, 0xFE, 0x41, 0x00]) 1 =
     Some (True, (new_parser 8 8 [])
       \<lparr>is_eof := True,
         raw_input := \<lparr>buffer = [0x41, 0x00, 0x41, 0x00, 0, 0, 0, 0], pointer = 4, length_b = 4,
                        capacity = 8\<rparr>,
         input := \<lparr>buffer = [0x41, 0x41, 0, 0, 0, 0, 0, 0], pointer = 0, length_b = 3,
                    capacity = 8\<rparr>,
         unread := 3, encoding := YAML_UTF16LE_ENCODING, offset := 6\<rparr>)"
  by code_simp

section \<open>Bytes that arrive one at a time\<close>

text \<open>
  C2. The claim is that a stream decodes to the same characters whether it arrives in
  one piece or byte by byte. On the stream \<open>EF BB BF 41\<close> (the mark of UTF-8 and the
  letter A) the first call for one character differs: with the stream read in one
  piece it returns 0 with the decoder error "Invalid leading UTF-8 octet" (offset 4,
  value \<open>0xBB\<close>), after one character; with the stream read byte by byte it returns 1
  with two characters in the buffer, \<open>U+FEFF\<close> and the letter A.
\<close>

theorem slow_arrival_changes_the_result:
  "yaml_parser_update_buffer string_reader (new_parser 8 8 [0xEF, 0xBB, 0xBF, 0x41]) 1 =
     Some (False, (new_parser 8 8 [])
       \<lparr>is_eof := True,
         raw_input := \<lparr>buffer = [0x41, 0xBB, 0xBF, 0x41, 0, 0, 0, 0], pointer = 1, length_b = 4,
                        capacity = 8\<rparr>,
         input := \<lparr>buffer = [0x41, 0, 0, 0, 0, 0, 0, 0], pointer = 0, length_b = 1,
                    capacity = 8\<rparr>,
         unread := 1, encoding := YAML_UTF8_ENCODING, offset := 4,
         error := YAML_DECODER_ERROR, problem := ''Invalid leading UTF-8 octet'',
         problem_offset := 4, problem_value := 0xBB\<rparr>) \<and>
   yaml_parser_update_buffer byte_reader (new_parser 8 8 [0xEF, 0xBB, 0xBF, 0x41]) 1 =
     Some (True, (new_parser 8 8 [])
       \<lparr>raw_input := \<lparr>buffer = [0xEF, 0xBB, 0xBF, 0x41, 0, 0, 0, 0], pointer = 4, length_b = 4,
                        capacity = 8\<rparr>,
         input := \<lparr>buffer = [0xEF, 0xBB, 0xBF, 0x41, 0, 0, 0, 0], pointer = 0, length_b = 4,
                    capacity = 8\<rparr>,
         unread := 2, encoding := YAML_UTF8_ENCODING, offset := 7\<rparr>)"
  by code_simp

end
